theory Spec2Isabelle
  imports Complex_Main
begin

section \<open>Python values and exceptions\<close>

text \<open>
  The script \<^verbatim>\<open>Figure_1_3_S3_Locations_WUP300K.py\<close> reads a CSV table, groups its rows by
  world region, splits them into population cohorts, averages the measurements of each
  location (\<^verbatim>\<open>loc_average\<close>) and bootstraps the averages (\<^verbatim>\<open>bstrap\<close>).

  A CSV row is a list of strings. Python floats are idealised as the reals: the arithmetic
  of the model is exact, rounding, infinities and NaN are outside it. The builtin
  \<^verbatim>\<open>float\<close> on a string is a parameter \<open>fl\<close> of the model, \<open>None\<close> where Python raises
  \<^verbatim>\<open>ValueError\<close>.
\<close>

datatype py_error =
    IndexError
  | ValueError
  | ZeroDivisionError
  | DecadeException

type_synonym row = "string list"
type_synonym pyfloat = "string \<Rightarrow> real option"

text \<open>Subscription \<^verbatim>\<open>xs[i]\<close>: a negative index counts from the end, out of range raises.\<close>

definition getitem :: "'a list \<Rightarrow> int \<Rightarrow> py_error + 'a" where
  "getitem xs i =
     (let n = int (length xs); j = (if i < 0 then i + n else i)
      in if 0 \<le> j \<and> j < n then Inr (xs ! nat j) else Inl IndexError)"

text \<open>A list comprehension \<^verbatim>\<open>[f(x) for x in xs]\<close> whose body may raise.\<close>

fun collect :: "('a \<Rightarrow> py_error + 'b) \<Rightarrow> 'a list \<Rightarrow> py_error + 'b list" where
  "collect f [] = Inr []"
| "collect f (x # xs) =
     (case f x of
        Inl e \<Rightarrow> Inl e
      | Inr y \<Rightarrow> (case collect f xs of Inl e \<Rightarrow> Inl e | Inr ys \<Rightarrow> Inr (y # ys)))"

text \<open>A list comprehension \<^verbatim>\<open>[x for x in xs if p(x)]\<close> whose condition may raise.\<close>

fun collect_if :: "('a \<Rightarrow> py_error + bool) \<Rightarrow> 'a list \<Rightarrow> py_error + 'a list" where
  "collect_if p [] = Inr []"
| "collect_if p (x # xs) =
     (case p x of
        Inl e \<Rightarrow> Inl e
      | Inr b \<Rightarrow>
          (case collect_if p xs of
             Inl e \<Rightarrow> Inl e
           | Inr ys \<Rightarrow> Inr (if b then x # ys else ys)))"

section \<open>Grouping the rows by region, and the population cohorts\<close>

definition region_unique :: "string list" where
  "region_unique =
     [''N Am'', ''CS Am'', ''Europe'', ''Africa'', ''SW Asia'',
      ''SC Asia'', ''India'', ''China'', ''E Asia'', ''SE Asia'']"

text \<open>\<^verbatim>\<open>data_line[2] == region\<close>\<close>

definition in_region :: "string \<Rightarrow> row \<Rightarrow> py_error + bool" where
  "in_region region data_line =
     (case getitem data_line 2 of Inl e \<Rightarrow> Inl e | Inr v \<Rightarrow> Inr (v = region))"

text \<open>
  \<^verbatim>\<open>for region in region_unique:
    regions.append([data_line for data_line in data_items if data_line[2] == region])\<close>
\<close>

definition regions :: "row list \<Rightarrow> py_error + row list list" where
  "regions data_items = collect (\<lambda>region. collect_if (in_region region) data_items) region_unique"

text \<open>\<^verbatim>\<open>float(x[8]) > 2000.0\<close> and \<^verbatim>\<open>float(x[8]) <= 2000.0\<close>\<close>

definition pop2010 :: "pyfloat \<Rightarrow> row \<Rightarrow> py_error + real" where
  "pop2010 fl x =
     (case getitem x 8 of
        Inl e \<Rightarrow> Inl e
      | Inr s \<Rightarrow> (case fl s of None \<Rightarrow> Inl ValueError | Some v \<Rightarrow> Inr v))"

definition is_above :: "pyfloat \<Rightarrow> row \<Rightarrow> py_error + bool" where
  "is_above fl x = (case pop2010 fl x of Inl e \<Rightarrow> Inl e | Inr v \<Rightarrow> Inr (v > 2000))"

definition is_below :: "pyfloat \<Rightarrow> row \<Rightarrow> py_error + bool" where
  "is_below fl x = (case pop2010 fl x of Inl e \<Rightarrow> Inl e | Inr v \<Rightarrow> Inr (v \<le> 2000))"

text \<open>
  \<^verbatim>\<open>allregions = copy.deepcopy(regions)\<close> is the same value;
  \<^verbatim>\<open>aboveregions = [[x for x in region_line if float(x[8]) > 2000.0] for region_line in allregions]\<close>,
  and \<^verbatim>\<open>belowregions\<close> with \<^verbatim>\<open><=\<close>.
\<close>

definition aboveregions :: "pyfloat \<Rightarrow> row list list \<Rightarrow> py_error + row list list" where
  "aboveregions fl allregions = collect (collect_if (is_above fl)) allregions"

definition belowregions :: "pyfloat \<Rightarrow> row list list \<Rightarrow> py_error + row list list" where
  "belowregions fl allregions = collect (collect_if (is_below fl)) allregions"

section \<open>Averaging the studies of each location: \<^verbatim>\<open>loc_average\<close>\<close>

text \<open>
  \<^verbatim>\<open>zip(*rows)\<close>: the columns of a table, as many as the shortest row has fields; no columns
  at all when there are no rows.
\<close>

definition zip_star :: "'a list list \<Rightarrow> 'a list list" where
  "zip_star rows =
     (case rows of
        [] \<Rightarrow> []
      | r # rs \<Rightarrow>
          map (\<lambda>c. map (\<lambda>x. x ! c) rows) [0..<fold (\<lambda>x n. min (length x) n) rs (length r)])"

text \<open>The slice \<^verbatim>\<open>xs[start:stop]\<close>: negative bounds count from the end, all bounds are clipped.\<close>

definition slice :: "'a list \<Rightarrow> int \<Rightarrow> int \<Rightarrow> 'a list" where
  "slice xs start stop =
     (let n = int (length xs);
          lo = (if start < 0 then max (start + n) 0 else min start n);
          hi = (if stop < 0 then max (stop + n) 0 else min stop n)
      in take (nat (hi - lo)) (drop (nat lo) xs))"

text \<open>
  \<^verbatim>\<open>for i in range(len(loc_name)):
    if loc_name_unique.count(loc_name[i]) == 0: loc_name_unique.append(loc_name[i])\<close>
\<close>

fun loc_name_unique :: "'a list \<Rightarrow> 'a list \<Rightarrow> 'a list" where
  "loc_name_unique acc [] = acc"
| "loc_name_unique acc (x # xs) =
     loc_name_unique (if count_list acc x = 0 then acc @ [x] else acc) xs"

text \<open>
  \<^verbatim>\<open>for i in range(len(loc_name)):
    if loc_name[i] == loc_name_unique[j]: loc_index.append(i)\<close>
\<close>

definition loc_index :: "'a list \<Rightarrow> 'a \<Rightarrow> nat list" where
  "loc_index loc_name name = filter (\<lambda>i. loc_name ! i = name) [0..<length loc_name]"

text \<open>
  One decade of one study. The accumulator is the pair \<^verbatim>\<open>(sum_loc, sub_loc)\<close> of the decade:
  \<^verbatim>\<open>if data[i] != '' and data[i] != ' ': sum_loc += float(data[i])
else: sub_loc += 1\<close>
\<close>

fun add_entry :: "pyfloat \<Rightarrow> string \<Rightarrow> real \<times> nat \<Rightarrow> py_error + real \<times> nat" where
  "add_entry fl x (sum_loc, sub_loc) =
     (if x \<noteq> '''' \<and> x \<noteq> '' ''
      then (case fl x of None \<Rightarrow> Inl ValueError | Some v \<Rightarrow> Inr (sum_loc + v, sub_loc))
      else Inr (sum_loc, sub_loc + 1))"

text \<open>
  The body of \<^verbatim>\<open>for k in range(len(loc_index))\<close> at the study \<open>i = loc_index[k]\<close>: the
  decades \<^verbatim>\<open>data70, data80, data90, data00\<close> (and \<^verbatim>\<open>data10\<close>) in this order, each with its
  own accumulator. The decades are the elements of \<open>data\<close>.
\<close>

fun add_study ::
  "pyfloat \<Rightarrow> nat \<Rightarrow> string list list \<Rightarrow> (real \<times> nat) list \<Rightarrow> py_error + (real \<times> nat) list"
where
  "add_study fl i (d # data) (a # accs) =
     (case add_entry fl (d ! i) a of
        Inl e \<Rightarrow> Inl e
      | Inr a' \<Rightarrow>
          (case add_study fl i data accs of Inl e \<Rightarrow> Inl e | Inr accs' \<Rightarrow> Inr (a' # accs')))"
| "add_study fl i _ _ = Inr []"

fun sum_studies ::
  "pyfloat \<Rightarrow> string list list \<Rightarrow> nat list \<Rightarrow> (real \<times> nat) list \<Rightarrow> py_error + (real \<times> nat) list"
where
  "sum_studies fl data [] accs = Inr accs"
| "sum_studies fl data (i # idx) accs =
     (case add_study fl i data accs of
        Inl e \<Rightarrow> Inl e
      | Inr accs' \<Rightarrow> sum_studies fl data idx accs')"

text \<open>
  \<^verbatim>\<open>if (len(loc_index)-sub_loc) > 0: loc.append(sum_loc/(len(loc_index)-sub_loc))\<close>
\<close>

fun append_mean :: "nat \<Rightarrow> real \<times> nat \<Rightarrow> real list \<Rightarrow> real list" where
  "append_mean n (sum_loc, sub_loc) loc =
     (if int n - int sub_loc > 0
      then loc @ [sum_loc / real_of_int (int n - int sub_loc)]
      else loc)"

text \<open>
  The loop \<^verbatim>\<open>for j in range(len(loc_name_unique))\<close>: \<open>locs\<close> are the lists
  \<^verbatim>\<open>loc70, loc80, loc90, loc00\<close> (and \<^verbatim>\<open>loc10\<close>), the accumulators start from zero at every
  location.
\<close>

fun locations ::
  "pyfloat \<Rightarrow> string list \<Rightarrow> string list list \<Rightarrow> string list \<Rightarrow> real list list
     \<Rightarrow> py_error + real list list"
where
  "locations fl loc_name data [] locs = Inr locs"
| "locations fl loc_name data (name # names) locs =
     (case sum_studies fl data (loc_index loc_name name) (replicate (length data) (0, 0)) of
        Inl e \<Rightarrow> Inl e
      | Inr accs \<Rightarrow>
          locations fl loc_name data names
            (map2 (append_mean (length (loc_index loc_name name))) accs locs))"

text \<open>
  \<^verbatim>\<open>loc_average(regions, m, data_index_start, data_index_end)\<close>, its first parameter written
  \<open>regions'\<close> here. The location names are the first column of \<^verbatim>\<open>regions[m]\<close>; this is
  evaluated before the number of decades is looked at.
  Unpacking the slice of columns into four (five) names raises \<^verbatim>\<open>ValueError\<close> unless the slice
  has four (five) columns. The returned tuple is the list of the decades' lists.
\<close>

definition loc_average ::
  "pyfloat \<Rightarrow> row list list \<Rightarrow> int \<Rightarrow> int \<Rightarrow> int \<Rightarrow> py_error + real list list"
where
  "loc_average fl regions' m data_index_start data_index_end =
     (case getitem regions' m of
        Inl e \<Rightarrow> Inl e
      | Inr region \<Rightarrow>
          (case getitem (zip_star region) 0 of
             Inl e \<Rightarrow> Inl e
           | Inr loc_name \<Rightarrow>
               if data_index_end - data_index_start = 4 \<or> data_index_end - data_index_start = 5
               then
                 (let data = slice (zip_star region) data_index_start data_index_end
                  in if int (length data) \<noteq> data_index_end - data_index_start
                     then Inl ValueError
                     else locations fl loc_name data (loc_name_unique [] loc_name)
                            (replicate (length data) []))
               else Inl DecadeException))"

text \<open>
  What the averages are meant to be, column by column: the names in order of first
  occurrence, the entries of a location in a column, the entries that are not blank, and the
  mean of their values.
\<close>

fun first_occurrences :: "'a list \<Rightarrow> 'a list" where
  "first_occurrences [] = []"
| "first_occurrences (x # xs) = x # filter (\<lambda>y. y \<noteq> x) (first_occurrences xs)"

definition is_missing :: "string \<Rightarrow> bool" where
  "is_missing x = (x = '''' \<or> x = '' '')"

definition entries_of :: "string list \<Rightarrow> string list \<Rightarrow> string \<Rightarrow> string list" where
  "entries_of loc_name col name = map snd (filter (\<lambda>p. fst p = name) (zip loc_name col))"

definition valid_entries :: "string list \<Rightarrow> string list \<Rightarrow> string \<Rightarrow> string list" where
  "valid_entries loc_name col name = filter (\<lambda>x. \<not> is_missing x) (entries_of loc_name col name)"

definition mean :: "real list \<Rightarrow> real" where
  "mean xs = sum_list xs / real (length xs)"

definition location_means :: "pyfloat \<Rightarrow> string list \<Rightarrow> string list \<Rightarrow> real list" where
  "location_means fl loc_name col =
     map (\<lambda>name. mean (map (\<lambda>x. the (fl x)) (valid_entries loc_name col name)))
       (filter (\<lambda>name. valid_entries loc_name col name \<noteq> []) (first_occurrences loc_name))"

text \<open>The column \<open>c\<close> of a table.\<close>

definition column :: "row list \<Rightarrow> nat \<Rightarrow> string list" where
  "column rows c = map (\<lambda>r. r ! c) rows"

text \<open>
  The tables on which \<^verbatim>\<open>loc_average\<close> returns: the region has a row, the columns
  \<open>s, \<dots>, e - 1\<close> are four or five and exist in every row, and every entry of these columns
  that is not blank is accepted by \<^verbatim>\<open>float\<close>.
\<close>

definition well_formed :: "pyfloat \<Rightarrow> row list \<Rightarrow> int \<Rightarrow> int \<Rightarrow> bool" where
  "well_formed fl region s e =
     (region \<noteq> [] \<and> 0 \<le> s \<and> (e - s = 4 \<or> e - s = 5) \<and>
      list_all (\<lambda>r. nat e \<le> length r \<and>
                 list_all (\<lambda>c. is_missing (r ! c) \<or> fl (r ! c) \<noteq> None) [nat s..<nat e]) region)"

section \<open>Bootstrapped means: \<^verbatim>\<open>bstrap\<close>\<close>

text \<open>
  \<^verbatim>\<open>numpy.random.choice(a, size=(rows, cols), replace=...)\<close> is a library function with a
  hidden generator; here it is a parameter of the model. It takes the generator's state \<open>'g\<close>,
  the population, the shape and the \<^verbatim>\<open>replace\<close> flag, and returns the matrix of draws with
  the next state.
\<close>

type_synonym 'g choice = "'g \<Rightarrow> real list \<Rightarrow> nat \<times> nat \<Rightarrow> bool \<Rightarrow> real list list \<times> 'g"

text \<open>\<^verbatim>\<open>numpy.mean(m, axis=1)\<close>: the mean of each row.\<close>

definition mean_axis1 :: "real list list \<Rightarrow> real list" where
  "mean_axis1 m = map (\<lambda>r. sum_list r / real (length r)) m"

text \<open>
  One decade of \<^verbatim>\<open>bstrap\<close>. The samples the script passes are lists of floats, on which
  \<^verbatim>\<open>float(x)\<close> is the identity:
  \<^verbatim>\<open>if len(data) > 0:
    data = [float(x)/numr8tr for x in data]
    npy = numpy.array(data)
    bs = numpy.mean(numpy.random.choice(npy,size=(bs_iter,npy.shape[0]),replace=True),axis=1)
else:
    bs = numpy.array([])\<close>
\<close>

definition resample :: "'g choice \<Rightarrow> nat \<Rightarrow> real \<Rightarrow> real list \<Rightarrow> 'g \<Rightarrow> real list \<times> 'g" where
  "resample ch bs_iter numr8tr data g =
     (if length data > 0
      then (let npy = map (\<lambda>x. x / numr8tr) data;
                (m, g') = ch g npy (bs_iter, length npy) True
            in (mean_axis1 m, g'))
      else ([], g))"

text \<open>
  \<^verbatim>\<open>bstrap(bs_iter, *data)\<close>: four samples are rates (\<^verbatim>\<open>numr8tr = 1\<close>), five are population
  densities (\<^verbatim>\<open>numr8tr = 1000\<close>, and the literal \<^verbatim>\<open>1000\<close> for the fifth sample); any other
  number raises. The generator's state is threaded through the decades in the order of the
  source. The returned tuple is the list of the decades' arrays.
\<close>

fun bstrap :: "'g choice \<Rightarrow> nat \<Rightarrow> real list list \<Rightarrow> 'g \<Rightarrow> py_error + real list list \<times> 'g" where
  "bstrap ch bs_iter [data70, data80, data90, data00] g =
     (let numr8tr = 1;
          (bs70, g1) = resample ch bs_iter numr8tr data70 g;
          (bs80, g2) = resample ch bs_iter numr8tr data80 g1;
          (bs90, g3) = resample ch bs_iter numr8tr data90 g2;
          (bs00, g4) = resample ch bs_iter numr8tr data00 g3
      in Inr ([bs70, bs80, bs90, bs00], g4))"
| "bstrap ch bs_iter [data70, data80, data90, data00, data10] g =
     (let numr8tr = 1000;
          (bs70, g1) = resample ch bs_iter numr8tr data70 g;
          (bs80, g2) = resample ch bs_iter numr8tr data80 g1;
          (bs90, g3) = resample ch bs_iter numr8tr data90 g2;
          (bs00, g4) = resample ch bs_iter numr8tr data00 g3;
          (bs10, g5) = resample ch bs_iter 1000 data10 g4
      in Inr ([bs70, bs80, bs90, bs00, bs10], g5))"
| "bstrap ch bs_iter _ g = Inl DecadeException"

text \<open>
  What the library draws. With \<^verbatim>\<open>replace=True\<close> and no \<^verbatim>\<open>p\<close>, \<^verbatim>\<open>choice\<close> draws an array of
  indices of the shape asked for, every index below the size of the population
  (\<^verbatim>\<open>randint(0, len(a), size)\<close>), and returns \<^verbatim>\<open>a[idx]\<close>. The arrays it can draw for a population
  of \<open>n\<close> members are the \<open>outcomes\<close>; an index may occur any number of times in an array.
\<close>

definition in_outcomes :: "nat \<Rightarrow> nat \<times> nat \<Rightarrow> nat list list \<Rightarrow> bool" where
  "in_outcomes n shape idx =
     (length idx = fst shape \<and>
      list_all (\<lambda>row. length row = snd shape \<and> list_all (\<lambda>j. j < n) row) idx)"

definition outcomes :: "nat \<Rightarrow> nat \<times> nat \<Rightarrow> nat list list set" where
  "outcomes n shape = {idx. in_outcomes n shape idx}"

text \<open>\<^verbatim>\<open>a[idx]\<close>: the members of the population at the indices drawn.\<close>

definition take_at :: "real list \<Rightarrow> nat list list \<Rightarrow> real list list" where
  "take_at a idx = map (map (\<lambda>j. a ! j)) idx"

text \<open>
  The library with its randomness made explicit: the state of the generator is the list of
  the index arrays it is going to draw, one for every call. A call takes the next array; the
  array is an outcome of the call only when \<^verbatim>\<open>replace\<close> is true and its shape and indices fit
  the call, and nothing is drawn otherwise.
\<close>

definition index_choice :: "nat list list list choice" where
  "index_choice g a shape replace =
     (case g of
        [] \<Rightarrow> ([], [])
      | idx # rest \<Rightarrow>
          (if replace \<and> in_outcomes (length a) shape idx then take_at a idx else [], rest))"

text \<open>
  The sample space of one call of \<^verbatim>\<open>bstrap\<close>: \<^verbatim>\<open>choice\<close> is called once for every sample that is
  not empty, in the order of the samples, with the shape \<open>(bs_iter, N)\<close> for a sample of \<open>N\<close>
  values. \<open>draws w data i\<close> is the index array drawn for the sample \<open>i\<close>.
\<close>

definition nonempty :: "real list list \<Rightarrow> real list list" where
  "nonempty data = filter (\<lambda>d. d \<noteq> []) data"

definition draw_space :: "nat \<Rightarrow> real list list \<Rightarrow> nat list list list set" where
  "draw_space bs_iter data =
     {w. list_all2 (\<lambda>idx d. in_outcomes (length d) (bs_iter, length d) idx) w (nonempty data)}"

definition draws :: "nat list list list \<Rightarrow> real list list \<Rightarrow> nat \<Rightarrow> nat list list" where
  "draws w data i = w ! length (nonempty (take i data))"

text \<open>
  The library draws every member of the sample space with the same probability: the
  probability of an event is the share of the members of the space in it.
\<close>

definition prob :: "'a set \<Rightarrow> ('a \<Rightarrow> bool) \<Rightarrow> real" where
  "prob S E = real (card {w \<in> S. E w}) / real (card S)"

text \<open>The decades of \<^verbatim>\<open>bstrap\<close> one after the other, as a recursion on the list of samples.\<close>

fun resample_all :: "'g choice \<Rightarrow> nat \<Rightarrow> real \<Rightarrow> real list list \<Rightarrow> 'g \<Rightarrow> real list list \<times> 'g" where
  "resample_all ch bs_iter k [] g = ([], g)"
| "resample_all ch bs_iter k (d # ds) g =
     (let (b, g1) = resample ch bs_iter k d g;
          (bs, g2) = resample_all ch bs_iter k ds g1
      in (b # bs, g2))"

text \<open>
  A generator to run the model with: its state is a counter, and the draw at row \<open>i\<close>,
  column \<open>j\<close> is the member of the population at position \<open>g + i + j\<close>, cyclically.
\<close>

definition cyclic_choice :: "nat choice" where
  "cyclic_choice g a shape replace =
     (map (\<lambda>i. map (\<lambda>j. a ! ((g + i + j) mod length a)) [0..<snd shape]) [0..<fst shape],
      g + fst shape * snd shape)"

section \<open>The names of the output files\<close>

text \<open>
  \<^verbatim>\<open>os.path\<close> is the path module of the platform the script runs on; its three functions
  the script calls are parameters of the model.
\<close>

record ospath =
  path_split :: "string \<Rightarrow> string \<times> string"
  path_splitext :: "string \<Rightarrow> string \<times> string"
  path_join :: "string \<Rightarrow> string \<Rightarrow> string"

text \<open>
  \<^verbatim>\<open>input_file_path = os.path.split(input_file)[0]\<close>,
  \<^verbatim>\<open>os.path.join(input_file_path,''.join(['regional_location_summary',os.path.splitext(input_file)[1]]))\<close>
  and \<^verbatim>\<open>os.path.join(input_file_path,''.join(['regional_location_bstrap',".xlsx"]))\<close>.
\<close>

definition summary_output_file :: "ospath \<Rightarrow> string \<Rightarrow> string" where
  "summary_output_file os input_file =
     path_join os (fst (path_split os input_file))
       (concat [''regional_location_summary'', snd (path_splitext os input_file)])"

definition bstrap_output_file :: "ospath \<Rightarrow> string \<Rightarrow> string" where
  "bstrap_output_file os input_file =
     path_join os (fst (path_split os input_file))
       (concat [''regional_location_bstrap'', ''.xlsx''])"

text \<open>
  The two \<^verbatim>\<open>fig.savefig\<close> calls of \<^verbatim>\<open>plot_linear\<close> and the two of \<^verbatim>\<open>plot_log\<close>, in their order:
  \<^verbatim>\<open>os.path.join(os.path.split(ifile_path)[0],'{:s}_rates_linear.png'.format(opic_string))\<close>
  and the like. Both functions also take the table of the cohort, \<open>regions'\<close>.
\<close>

definition plot_linear_files :: "ospath \<Rightarrow> row list list \<Rightarrow> string \<Rightarrow> string \<Rightarrow> string list" where
  "plot_linear_files os regions' ifile_path opic_string =
     [path_join os (fst (path_split os ifile_path)) (opic_string @ ''_rates_linear.png''),
      path_join os (fst (path_split os ifile_path)) (opic_string @ ''_PD_linear.png'')]"

definition plot_log_files :: "ospath \<Rightarrow> row list list \<Rightarrow> string \<Rightarrow> string \<Rightarrow> string list" where
  "plot_log_files os regions' ifile_path opic_string =
     [path_join os (fst (path_split os ifile_path)) (opic_string @ ''_rates_log.png''),
      path_join os (fst (path_split os ifile_path)) (opic_string @ ''_PD_log.png'')]"

text \<open>
  The six calls at the end of the script, each with \<^verbatim>\<open>input_file\<close> as \<^verbatim>\<open>ifile_path\<close>:
  \<^verbatim>\<open>plot_linear\<close> and \<^verbatim>\<open>plot_log\<close> for the cohorts all, above and below.
\<close>

definition png_files ::
  "ospath \<Rightarrow> string \<Rightarrow> row list list \<Rightarrow> row list list \<Rightarrow> row list list \<Rightarrow> string list"
where
  "png_files os input_file allregions' aboveregions' belowregions' =
     plot_linear_files os allregions' input_file ''regional_all_location'' @
     plot_log_files os allregions' input_file ''regional_all_location'' @
     plot_linear_files os aboveregions' input_file ''regional_above_location'' @
     plot_log_files os aboveregions' input_file ''regional_above_location'' @
     plot_linear_files os belowregions' input_file ''regional_below_location'' @
     plot_log_files os belowregions' input_file ''regional_below_location''"

section \<open>The exceptions and warnings the script recovers from\<close>

text \<open>A statistic that may be \<^verbatim>\<open>numpy.nan\<close>.\<close>

datatype stat = NaN | Val real

text \<open>\<^verbatim>\<open>sum(xs)/len(xs)\<close> on a list of floats.\<close>

definition py_mean :: "real list \<Rightarrow> py_error + real" where
  "py_mean xs =
     (if length xs = 0 then Inl ZeroDivisionError else Inr (sum_list xs / real (length xs)))"

text \<open>
  \<^verbatim>\<open>try: means.append(sum(xs)/len(xs))
except ZeroDivisionError: means.append(numpy.nan)\<close>
\<close>

definition try_mean :: "real list \<Rightarrow> py_error + stat" where
  "try_mean xs =
     (case py_mean xs of
        Inl e \<Rightarrow> if e = ZeroDivisionError then Inr NaN else Inl e
      | Inr v \<Rightarrow> Inr (Val v))"

text \<open>
  The first loop of \<^verbatim>\<open>plot_linear\<close>: for every region the four lists of
  \<^verbatim>\<open>loc_average(regions,m,9,13)\<close> (unpacking them into four names raises \<^verbatim>\<open>ValueError\<close> on any
  other number) and their four means.
\<close>

definition region_means :: "pyfloat \<Rightarrow> row list list \<Rightarrow> py_error + stat list list" where
  "region_means fl regions' =
     collect (\<lambda>m. case loc_average fl regions' (int m) 9 13 of
                     Inl e \<Rightarrow> Inl e
                   | Inr pops \<Rightarrow> if length pops \<noteq> 4 then Inl ValueError else collect try_mean pops)
       [0..<length region_unique]"

text \<open>
  A computation that may emit warnings is a value with the warnings it emitted.
  \<^verbatim>\<open>numpy.mean\<close> and \<^verbatim>\<open>numpy.median\<close> are library functions, parameters here.
  \<^verbatim>\<open>with warnings.catch_warnings(): warnings.simplefilter("ignore")\<close> drops the warnings
  of its body.
\<close>

datatype py_warning = RuntimeWarning

type_synonym 'a warned = "'a \<times> py_warning list"

definition catch_warnings_ignore :: "'a warned \<Rightarrow> 'a warned" where
  "catch_warnings_ignore body = (fst body, [])"

text \<open>
  The means and the medians of the bootstrapped arrays of a region, computed in the body of
  the \<^verbatim>\<open>with\<close> statement: all the means first, then all the medians.
\<close>

definition summary_stats ::
  "(real list \<Rightarrow> stat warned) \<Rightarrow> (real list \<Rightarrow> stat warned) \<Rightarrow> real list list
     \<Rightarrow> (stat list \<times> stat list) warned"
where
  "summary_stats numpy_mean numpy_median bs =
     catch_warnings_ignore
       ((map (\<lambda>b. fst (numpy_mean b)) bs, map (\<lambda>b. fst (numpy_median b)) bs),
        concat (map (\<lambda>b. snd (numpy_mean b)) bs) @ concat (map (\<lambda>b. snd (numpy_median b)) bs))"

text \<open>
  Unpacking a tuple into \<open>n\<close> names, as in \<^verbatim>\<open>data70,data80,data90,data00 = ...\<close>: any other
  number of values raises \<^verbatim>\<open>ValueError\<close>.
\<close>

definition unpack :: "nat \<Rightarrow> 'a list \<Rightarrow> py_error + 'a list" where
  "unpack n xs = (if length xs = n then Inr xs else Inl ValueError)"

text \<open>
  A loop \<^verbatim>\<open>for m, cur_region in enumerate(region_unique)\<close> whose body draws from the library:
  the state of the generator goes from one region to the next, and an exception of the body
  ends the loop.
\<close>

fun for_regions ::
  "(nat \<Rightarrow> 'g \<Rightarrow> py_error + 'b \<times> 'g) \<Rightarrow> nat list \<Rightarrow> 'g \<Rightarrow> py_error + 'b list \<times> 'g"
where
  "for_regions body [] g = Inr ([], g)"
| "for_regions body (m # ms) g =
     (case body m g of
        Inl e \<Rightarrow> Inl e
      | Inr (y, g1) \<Rightarrow>
          (case for_regions body ms g1 of
             Inl e \<Rightarrow> Inl e
           | Inr (ys, g2) \<Rightarrow> Inr (y # ys, g2)))"

text \<open>
  The body of the second and of the third loop of \<^verbatim>\<open>plot_linear\<close>, with the columns \<open>s\<close>,
  \<open>e\<close> and the number \<open>n\<close> of decades \<open>18\<close>, \<open>22\<close>, \<open>4\<close> in the second and \<open>22\<close>, \<open>27\<close>, \<open>5\<close> in the
  third:
  \<^verbatim>\<open>data70,data80,data90,data00 = loc_average(regions,m,18,22)
bs70,bs80,bs90,bs00 = bstrap(1000,data70,data80,data90,data00)
bs_pack1.append((bs70,bs80,bs90,bs00))
with warnings.catch_warnings():
    warnings.simplefilter("ignore")
    bs70_mean,... = numpy.mean(bs70.astype(numpy.float64)),...
    bs70_median,... = numpy.median(bs70.astype(numpy.float64)),...\<close>
  The result is the tuple of the arrays with the statistics written to the summary file
  and the warnings that leave the \<^verbatim>\<open>with\<close> statement. The statements that follow in the
  body call the plotting library only and are not part of the model.
\<close>

definition bstrap_region ::
  "pyfloat \<Rightarrow> 'g choice \<Rightarrow> (real list \<Rightarrow> stat warned) \<Rightarrow> (real list \<Rightarrow> stat warned) \<Rightarrow>
     row list list \<Rightarrow> int \<Rightarrow> int \<Rightarrow> nat \<Rightarrow> nat \<Rightarrow> 'g \<Rightarrow>
     py_error + (real list list \<times> (stat list \<times> stat list) warned) \<times> 'g"
where
  "bstrap_region fl ch numpy_mean numpy_median regions' s e n m g =
     (case loc_average fl regions' (int m) s e of
        Inl err \<Rightarrow> Inl err
      | Inr data \<Rightarrow>
          (case unpack n data of
             Inl err \<Rightarrow> Inl err
           | Inr data \<Rightarrow>
               (case bstrap ch 1000 data g of
                  Inl err \<Rightarrow> Inl err
                | Inr (bs, g') \<Rightarrow>
                    (case unpack n bs of
                       Inl err \<Rightarrow> Inl err
                     | Inr bs \<Rightarrow> Inr ((bs, summary_stats numpy_mean numpy_median bs), g')))))"

text \<open>
  \<^verbatim>\<open>plot_linear\<close>: its three loops over the regions, in their order. It returns
  \<^verbatim>\<open>bs_pack1,bs_pack2,region_means\<close>; the model returns with them the statistics written to the
  summary file and the warnings that were not suppressed.
\<close>

record linear_out =
  bs_pack1 :: "real list list list"
  bs_pack2 :: "real list list list"
  means :: "stat list list"
  summary :: "(stat list \<times> stat list) list"
  escaped :: "py_warning list"

definition plot_linear ::
  "pyfloat \<Rightarrow> 'g choice \<Rightarrow> (real list \<Rightarrow> stat warned) \<Rightarrow> (real list \<Rightarrow> stat warned) \<Rightarrow>
     row list list \<Rightarrow> 'g \<Rightarrow> py_error + linear_out \<times> 'g"
where
  "plot_linear fl ch numpy_mean numpy_median regions' g =
     (case region_means fl regions' of
        Inl err \<Rightarrow> Inl err
      | Inr rm \<Rightarrow>
          (case for_regions (bstrap_region fl ch numpy_mean numpy_median regions' 18 22 4)
                  [0..<length region_unique] g of
             Inl err \<Rightarrow> Inl err
           | Inr (rates, g1) \<Rightarrow>
               (case for_regions (bstrap_region fl ch numpy_mean numpy_median regions' 22 27 5)
                       [0..<length region_unique] g1 of
                  Inl err \<Rightarrow> Inl err
                | Inr (pds, g2) \<Rightarrow>
                    Inr (\<lparr>bs_pack1 = map fst rates, bs_pack2 = map fst pds, means = rm,
                          summary = map (\<lambda>r. fst (snd r)) (rates @ pds),
                          escaped = concat (map (\<lambda>r. snd (snd r)) (rates @ pds))\<rparr>, g2))))"

text \<open>
  The body of the two loops of \<^verbatim>\<open>plot_log\<close>, with \<^verbatim>\<open>bs_pack1\<close>, \<open>18\<close>, \<open>22\<close>, \<open>4\<close> in the first and
  \<^verbatim>\<open>bs_pack2\<close>, \<open>22\<close>, \<open>27\<close>, \<open>5\<close> in the second:
  \<^verbatim>\<open>bs70,bs80,bs90,bs00 = bs_pack1[m]
data70,data80,data90,data00 = loc_average(regions,m,18,22)\<close>
\<close>

definition log_region ::
  "pyfloat \<Rightarrow> row list list \<Rightarrow> real list list list \<Rightarrow> int \<Rightarrow> int \<Rightarrow> nat \<Rightarrow> nat \<Rightarrow>
     py_error + real list list \<times> real list list"
where
  "log_region fl regions' bs_pack s e n m =
     (case getitem bs_pack (int m) of
        Inl err \<Rightarrow> Inl err
      | Inr bs \<Rightarrow>
          (case unpack n bs of
             Inl err \<Rightarrow> Inl err
           | Inr bs \<Rightarrow>
               (case loc_average fl regions' (int m) s e of
                  Inl err \<Rightarrow> Inl err
                | Inr data \<Rightarrow>
                    (case unpack n data of
                       Inl err \<Rightarrow> Inl err
                     | Inr data \<Rightarrow> Inr (bs, data)))))"

text \<open>\<^verbatim>\<open>plot_log\<close>: its two loops over the regions; what they plot is their result here.\<close>

definition plot_log ::
  "pyfloat \<Rightarrow> row list list \<Rightarrow> real list list list \<Rightarrow> real list list list \<Rightarrow>
     py_error + (real list list \<times> real list list) list \<times> (real list list \<times> real list list) list"
where
  "plot_log fl regions' pack1 pack2 =
     (case collect (log_region fl regions' pack1 18 22 4) [0..<length region_unique] of
        Inl err \<Rightarrow> Inl err
      | Inr rates \<Rightarrow>
          (case collect (log_region fl regions' pack2 22 27 5) [0..<length region_unique] of
             Inl err \<Rightarrow> Inl err
           | Inr pds \<Rightarrow> Inr (rates, pds)))"

text \<open>\<^verbatim>\<open>s.split(sep)\<close> with a separator of one character.\<close>

fun split_on :: "char \<Rightarrow> string \<Rightarrow> string list" where
  "split_on sep [] = [[]]"
| "split_on sep (c # cs) =
     (if c = sep then [] # split_on sep cs
      else (case split_on sep cs of [] \<Rightarrow> [[c]] | w # ws \<Rightarrow> (c # w) # ws))"

text \<open>
  From the text of the input file to the rows:
  \<^verbatim>\<open>file_lines = file_data.split("\n")
while file_lines.count('') > 0:
    file_lines.remove('')
while file_lines.count(' ') > 0:
    file_lines.remove(' ')
title_line = file_lines.pop(0)
data_items = [x.split(",") for x in file_lines]\<close>
  \<^verbatim>\<open>pop(0)\<close> raises \<^verbatim>\<open>IndexError\<close> on an empty list.
\<close>

definition data_items_of :: "string \<Rightarrow> py_error + row list" where
  "data_items_of file_data =
     (let file_lines = split_on (CHR 0x0A) file_data;
          file_lines = filter (\<lambda>l. l \<noteq> []) file_lines;
          file_lines = filter (\<lambda>l. l \<noteq> '' '') file_lines
      in if file_lines = [] then Inl IndexError
         else Inr (map (split_on (CHR '','')) (tl file_lines)))"

text \<open>
  The two calls for a cohort at the end of the script:
  \<^verbatim>\<open>bs_pack1,bs_pack2,region_means = plot_linear(allregions,...)
plot_log(allregions,...,bs_pack1,bs_pack2,region_means)\<close>
\<close>

definition cohort ::
  "pyfloat \<Rightarrow> 'g choice \<Rightarrow> (real list \<Rightarrow> stat warned) \<Rightarrow> (real list \<Rightarrow> stat warned) \<Rightarrow>
     row list list \<Rightarrow> 'g \<Rightarrow> py_error + linear_out \<times> 'g"
where
  "cohort fl ch numpy_mean numpy_median regions' g =
     (case plot_linear fl ch numpy_mean numpy_median regions' g of
        Inl err \<Rightarrow> Inl err
      | Inr (out, g') \<Rightarrow>
          (case plot_log fl regions' (bs_pack1 out) (bs_pack2 out) of
             Inl err \<Rightarrow> Inl err
           | Inr _ \<Rightarrow> Inr (out, g')))"

text \<open>
  The script from the text of the input file on: the rows, the regions, the cohorts, and
  the two plotting functions on the cohorts all, above and below. Opening, reading and
  writing the files are calls of the library and are not part of the model.
\<close>

definition script ::
  "pyfloat \<Rightarrow> 'g choice \<Rightarrow> (real list \<Rightarrow> stat warned) \<Rightarrow> (real list \<Rightarrow> stat warned) \<Rightarrow>
     string \<Rightarrow> 'g \<Rightarrow> py_error + linear_out list \<times> 'g"
where
  "script fl ch numpy_mean numpy_median file_data g =
     (case data_items_of file_data of
        Inl err \<Rightarrow> Inl err
      | Inr data_items' \<Rightarrow>
     (case regions data_items' of
        Inl err \<Rightarrow> Inl err
      | Inr allregions \<Rightarrow>
     (case aboveregions fl allregions of
        Inl err \<Rightarrow> Inl err
      | Inr aboveregions' \<Rightarrow>
     (case belowregions fl allregions of
        Inl err \<Rightarrow> Inl err
      | Inr belowregions' \<Rightarrow>
     (case cohort fl ch numpy_mean numpy_median allregions g of
        Inl err \<Rightarrow> Inl err
      | Inr (out1, g1) \<Rightarrow>
     (case cohort fl ch numpy_mean numpy_median aboveregions' g1 of
        Inl err \<Rightarrow> Inl err
      | Inr (out2, g2) \<Rightarrow>
     (case cohort fl ch numpy_mean numpy_median belowregions' g2 of
        Inl err \<Rightarrow> Inl err
      | Inr (out3, g3) \<Rightarrow> Inr ([out1, out2, out3], g3))))))))"

text \<open>
  What a computation raises, if anything, and the first exception raised by a sequence of
  calls in the order of the program.
\<close>

definition raised :: "py_error + 'a \<Rightarrow> py_error option" where
  "raised r = (case r of Inl e \<Rightarrow> Some e | Inr v \<Rightarrow> None)"

fun first_raised :: "py_error option list \<Rightarrow> py_error option" where
  "first_raised [] = None"
| "first_raised (None # rs) = first_raised rs"
| "first_raised (Some e # rs) = Some e"

text \<open>
  The calls of \<^verbatim>\<open>loc_average\<close> of one loop of \<^verbatim>\<open>plot_linear\<close> over the regions, and the
  statements of one loop of \<^verbatim>\<open>plot_log\<close>: reading and unpacking \<^verbatim>\<open>bs_pack[m]\<close>, then the call
  of \<^verbatim>\<open>loc_average\<close>.
\<close>

definition loc_average_calls :: "pyfloat \<Rightarrow> row list list \<Rightarrow> int \<Rightarrow> int \<Rightarrow> py_error option list" where
  "loc_average_calls fl regions' s e =
     map (\<lambda>m. raised (loc_average fl regions' (int m) s e)) [0..<length region_unique]"

definition log_calls ::
  "pyfloat \<Rightarrow> row list list \<Rightarrow> real list list list \<Rightarrow> int \<Rightarrow> int \<Rightarrow> nat \<Rightarrow> py_error option list"
where
  "log_calls fl regions' bs_pack s e n =
     concat (map (\<lambda>m. [raised (case getitem bs_pack (int m) of
                                  Inl err \<Rightarrow> Inl err
                                | Inr bs \<Rightarrow> unpack n bs),
                        raised (loc_average fl regions' (int m) s e)])
               [0..<length region_unique])"

text \<open>
  What the script is to raise when nothing but the \<^verbatim>\<open>ZeroDivisionError\<close> of the four means is
  caught: the first exception of reading the rows, of grouping them, of the two cohort
  filters, and then of the calls of \<^verbatim>\<open>loc_average\<close> of \<^verbatim>\<open>plot_linear\<close> on the three cohorts.
\<close>

definition script_raises :: "pyfloat \<Rightarrow> string \<Rightarrow> py_error option" where
  "script_raises fl file_data =
     (case data_items_of file_data of
        Inl err \<Rightarrow> Some err
      | Inr data_items' \<Rightarrow>
     (case regions data_items' of
        Inl err \<Rightarrow> Some err
      | Inr allregions \<Rightarrow>
     (case aboveregions fl allregions of
        Inl err \<Rightarrow> Some err
      | Inr aboveregions' \<Rightarrow>
     (case belowregions fl allregions of
        Inl err \<Rightarrow> Some err
      | Inr belowregions' \<Rightarrow>
          first_raised
            (concat (map (\<lambda>c. loc_average_calls fl c 9 13 @ loc_average_calls fl c 18 22 @
                              loc_average_calls fl c 22 27)
                       [allregions, aboveregions', belowregions']))))))"

text \<open>
  To run the model with: a mean that warns on an empty array as \<^verbatim>\<open>numpy.mean\<close> does, and a
  table of ten regions with one row each, whose second decade of population change and whose
  columns of urban expansion and population density are blank.
\<close>

definition warning_mean :: "real list \<Rightarrow> stat warned" where
  "warning_mean b = (if b = [] then (NaN, [RuntimeWarning]) else (Val (mean b), []))"

definition ex_row :: row where
  "ex_row = [''A''] @ replicate 8 '''' @ [''1'', '''', ''3'', ''4''] @ replicate 14 ''''"

definition ex_regions :: "row list list" where
  "ex_regions = replicate 10 [ex_row]"

section \<open>An explicit store\<close>

text \<open>
  Strings, numbers and tuples are immutable and stay values. Lists and arrays are objects
  of a store, a value may refer to one by its address, and the store is the list of the
  objects in the order of their creation.
\<close>

datatype val = Str string | Flt real | Idx nat | Ref nat

datatype obj = PyList "val list" | NdArray "real list" | NdMatrix "real list list"

type_synonym store = "obj list"

text \<open>Creating an object, reading a list, and \<^verbatim>\<open>list.append\<close>, which writes the list in place.\<close>

definition alloc :: "obj \<Rightarrow> store \<Rightarrow> nat \<times> store" where
  "alloc ob h = (length h, h @ [ob])"

definition items :: "store \<Rightarrow> nat \<Rightarrow> val list" where
  "items h a = (case h ! a of PyList vs \<Rightarrow> vs | _ \<Rightarrow> [])"

definition list_append :: "nat \<Rightarrow> val \<Rightarrow> store \<Rightarrow> store" where
  "list_append a v h = h[a := PyList (items h a @ [v])]"

text \<open>Reading well-typed lists: of strings, of floats, of indices, of references.\<close>

definition str_of :: "val \<Rightarrow> string" where
  "str_of v = (case v of Str s \<Rightarrow> s | _ \<Rightarrow> [])"

definition flt_of :: "val \<Rightarrow> real" where
  "flt_of v = (case v of Flt x \<Rightarrow> x | _ \<Rightarrow> 0)"

definition int_of :: "val \<Rightarrow> nat" where
  "int_of v = (case v of Idx i \<Rightarrow> i | _ \<Rightarrow> 0)"

definition ref_of :: "val \<Rightarrow> nat" where
  "ref_of v = (case v of Ref a \<Rightarrow> a | _ \<Rightarrow> 0)"

definition array_at :: "store \<Rightarrow> nat \<Rightarrow> real list" where
  "array_at h a = (case h ! a of NdArray xs \<Rightarrow> xs | _ \<Rightarrow> [])"

definition matrix_at :: "store \<Rightarrow> nat \<Rightarrow> real list list" where
  "matrix_at h a = (case h ! a of NdMatrix m \<Rightarrow> m | _ \<Rightarrow> [])"

text \<open>The table of a region object (a list of rows, each a list of strings), and all tables.\<close>

definition rows_at :: "store \<Rightarrow> nat \<Rightarrow> row list" where
  "rows_at h a = map (\<lambda>r. map str_of (items h (ref_of r))) (items h a)"

definition regions_at :: "store \<Rightarrow> nat \<Rightarrow> row list list" where
  "regions_at h a = map (\<lambda>r. rows_at h (ref_of r)) (items h a)"

text \<open>
  \<^verbatim>\<open>loc_name_unique = []\<close> is an object at \<open>u\<close>;
  \<^verbatim>\<open>if loc_name_unique.count(loc_name[i]) == 0: loc_name_unique.append(loc_name[i])\<close>.
\<close>

fun unique_loop :: "nat \<Rightarrow> string list \<Rightarrow> store \<Rightarrow> store" where
  "unique_loop u [] h = h"
| "unique_loop u (x # xs) h =
     unique_loop u xs (if count_list (items h u) (Str x) = 0 then list_append u (Str x) h else h)"

text \<open>
  \<^verbatim>\<open>loc_index = []\<close> is an object at \<open>li\<close>;
  \<^verbatim>\<open>if loc_name[i] == loc_name_unique[j]: loc_index.append(i)\<close> for the indices \<open>i\<close> in turn.
\<close>

fun index_loop :: "nat \<Rightarrow> string list \<Rightarrow> string \<Rightarrow> nat list \<Rightarrow> store \<Rightarrow> store" where
  "index_loop li loc_name name [] h = h"
| "index_loop li loc_name name (i # rest) h =
     index_loop li loc_name name rest
       (if loc_name ! i = name then list_append li (Idx i) h else h)"

text \<open>
  \<^verbatim>\<open>if (len(loc_index)-sub_loc) > 0: loc.append(sum_loc/(len(loc_index)-sub_loc))\<close>, for the
  decades in turn; \<open>ls\<close> are the addresses of \<^verbatim>\<open>loc70, loc80, loc90, loc00\<close> (and \<^verbatim>\<open>loc10\<close>).
\<close>

fun append_means :: "nat \<Rightarrow> (real \<times> nat) list \<Rightarrow> nat list \<Rightarrow> store \<Rightarrow> store" where
  "append_means n ((sum_loc, sub_loc) # accs) (l # ls) h =
     append_means n accs ls
       (if int n - int sub_loc > 0
        then list_append l (Flt (sum_loc / real_of_int (int n - int sub_loc))) h
        else h)"
| "append_means n _ _ h = h"

text \<open>
  The loop \<^verbatim>\<open>for j in range(len(loc_name_unique))\<close> over the indices \<open>js\<close>: the name is read
  from the object at \<open>u\<close>, the indices of its studies are collected in a new object, the sums
  are numbers, and the means are appended to the objects at \<open>ls\<close>.
\<close>

fun locations_h ::
  "pyfloat \<Rightarrow> string list \<Rightarrow> string list list \<Rightarrow> nat \<Rightarrow> nat list \<Rightarrow> nat list \<Rightarrow> store
     \<Rightarrow> py_error option \<times> store"
where
  "locations_h fl loc_name data u ls [] h = (None, h)"
| "locations_h fl loc_name data u ls (j # js) h =
     (let (li, h1) = alloc (PyList []) h;
          h2 = index_loop li loc_name (str_of (items h1 u ! j)) [0..<length loc_name] h1;
          idx = map int_of (items h2 li)
      in case sum_studies fl data idx (replicate (length data) (0, 0)) of
           Inl err \<Rightarrow> (Some err, h2)
         | Inr accs \<Rightarrow> locations_h fl loc_name data u ls js (append_means (length idx) accs ls h2))"

text \<open>\<^verbatim>\<open>loc70,loc80,loc90,loc00 = [],[],[],[]\<close>: as many new empty lists as decades.\<close>

fun alloc_lists :: "nat \<Rightarrow> store \<Rightarrow> nat list \<times> store" where
  "alloc_lists 0 h = ([], h)"
| "alloc_lists (Suc k) h =
     (let (l, h1) = alloc (PyList []) h; (ls, h2) = alloc_lists k h1 in (l # ls, h2))"

text \<open>\<^verbatim>\<open>return loc70[:],loc80[:],loc90[:],loc00[:]\<close>: a copy of each list.\<close>

fun copy_lists :: "nat list \<Rightarrow> store \<Rightarrow> nat list \<times> store" where
  "copy_lists [] h = ([], h)"
| "copy_lists (l # ls) h =
     (let (c, h1) = alloc (PyList (items h l)) h; (cs, h2) = copy_lists ls h1 in (c # cs, h2))"

text \<open>
  The part of \<^verbatim>\<open>loc_average\<close> that makes and fills lists: the unique names, the lists of the
  decades, the loop over the names, and the copies that are returned. The result is the
  exception or the addresses of the returned lists, with the store at the end.
\<close>

definition average_lists ::
  "pyfloat \<Rightarrow> string list \<Rightarrow> string list list \<Rightarrow> store \<Rightarrow> (py_error + nat list) \<times> store"
where
  "average_lists fl loc_name data h =
     (let (u, h1) = alloc (PyList []) h;
          h2 = unique_loop u loc_name h1;
          (ls, h3) = alloc_lists (length data) h2
      in case locations_h fl loc_name data u ls [0..<length (items h3 u)] h3 of
           (Some err, h4) \<Rightarrow> (Inl err, h4)
         | (None, h4) \<Rightarrow> (let (cs, h5) = copy_lists ls h4 in (Inr cs, h5)))"

text \<open>
  \<^verbatim>\<open>loc_average\<close> on the store: \<open>regions_ref\<close> is the address of \<^verbatim>\<open>regions\<close>. The columns made
  by \<^verbatim>\<open>zip\<close> are tuples of strings, hence values.
\<close>

definition loc_average_h ::
  "pyfloat \<Rightarrow> nat \<Rightarrow> int \<Rightarrow> int \<Rightarrow> int \<Rightarrow> store \<Rightarrow> (py_error + nat list) \<times> store"
where
  "loc_average_h fl regions_ref m data_index_start data_index_end h =
     (case getitem (items h regions_ref) m of
        Inl err \<Rightarrow> (Inl err, h)
      | Inr r \<Rightarrow>
          (case getitem (zip_star (rows_at h (ref_of r))) 0 of
             Inl err \<Rightarrow> (Inl err, h)
           | Inr loc_name \<Rightarrow>
               if data_index_end - data_index_start = 4 \<or> data_index_end - data_index_start = 5
               then
                 (let data = slice (zip_star (rows_at h (ref_of r))) data_index_start data_index_end
                  in if int (length data) \<noteq> data_index_end - data_index_start
                     then (Inl ValueError, h)
                     else average_lists fl loc_name data h)
               else (Inl DecadeException, h)))"

text \<open>
  One decade of \<^verbatim>\<open>bstrap\<close> on the store: the comprehension makes a new list (the name
  \<^verbatim>\<open>data70\<close> is bound to it, the sample object is left alone), \<^verbatim>\<open>numpy.array\<close>,
  \<^verbatim>\<open>numpy.random.choice\<close> and \<^verbatim>\<open>numpy.mean\<close> make new arrays.
\<close>

definition resample_h ::
  "'g choice \<Rightarrow> nat \<Rightarrow> real \<Rightarrow> nat \<Rightarrow> 'g \<Rightarrow> store \<Rightarrow> nat \<times> 'g \<times> store"
where
  "resample_h ch bs_iter numr8tr data_ref g h =
     (if length (items h data_ref) > 0
      then (let (l, h1) = alloc (PyList (map (\<lambda>x. Flt (flt_of x / numr8tr)) (items h data_ref))) h;
                (npy, h2) = alloc (NdArray (map flt_of (items h1 l))) h1;
                (m, g') = ch g (array_at h2 npy) (bs_iter, length (array_at h2 npy)) True;
                (c, h3) = alloc (NdMatrix m) h2;
                (bs, h4) = alloc (NdArray (mean_axis1 (matrix_at h3 c))) h3
            in (bs, g', h4))
      else (let (bs, h1) = alloc (NdArray []) h in (bs, g, h1)))"

fun bstrap_h ::
  "'g choice \<Rightarrow> nat \<Rightarrow> nat list \<Rightarrow> 'g \<Rightarrow> store \<Rightarrow> (py_error + nat list \<times> 'g) \<times> store"
where
  "bstrap_h ch bs_iter [data70, data80, data90, data00] g h =
     (let numr8tr = 1;
          (bs70, g1, h1) = resample_h ch bs_iter numr8tr data70 g h;
          (bs80, g2, h2) = resample_h ch bs_iter numr8tr data80 g1 h1;
          (bs90, g3, h3) = resample_h ch bs_iter numr8tr data90 g2 h2;
          (bs00, g4, h4) = resample_h ch bs_iter numr8tr data00 g3 h3
      in (Inr ([bs70, bs80, bs90, bs00], g4), h4))"
| "bstrap_h ch bs_iter [data70, data80, data90, data00, data10] g h =
     (let numr8tr = 1000;
          (bs70, g1, h1) = resample_h ch bs_iter numr8tr data70 g h;
          (bs80, g2, h2) = resample_h ch bs_iter numr8tr data80 g1 h1;
          (bs90, g3, h3) = resample_h ch bs_iter numr8tr data90 g2 h2;
          (bs00, g4, h4) = resample_h ch bs_iter numr8tr data00 g3 h3;
          (bs10, g5, h5) = resample_h ch bs_iter 1000 data10 g4 h4
      in (Inr ([bs70, bs80, bs90, bs00, bs10], g5), h5))"
| "bstrap_h ch bs_iter _ g h = (Inl DecadeException, h)"

text \<open>
  The objects that exist at the call are the same after it: the store only grows, and
  every old address holds the object it held.
\<close>

definition unchanged :: "store \<Rightarrow> store \<Rightarrow> bool" where
  "unchanged h h' = (length h \<le> length h' \<and> take (length h) h' = h)"

text \<open>
  What every step of the two functions keeps: the store keeps its objects below the
  address \<open>n\<close> and does not shrink.
\<close>

definition frame :: "nat \<Rightarrow> store \<Rightarrow> store \<Rightarrow> bool" where
  "frame n h h' = (n \<le> length h \<and> length h \<le> length h' \<and> take n h' = take n h)"

text \<open>The floats of the list at an address.\<close>

definition floats_at :: "store \<Rightarrow> nat \<Rightarrow> real list" where
  "floats_at h a = map flt_of (items h a)"

text \<open>
  The references of a table of regions point into the store: the list of regions, the
  regions in it, and the rows in them.
\<close>

definition valid_regions :: "store \<Rightarrow> nat \<Rightarrow> bool" where
  "valid_regions h regions_ref =
     (regions_ref < length h \<and>
      list_all (\<lambda>r. ref_of r < length h \<and>
                  list_all (\<lambda>w. ref_of w < length h) (items h (ref_of r)))
        (items h regions_ref))"

text \<open>
  A store to run the model on: three rows, a region of these rows, the list of regions,
  and four samples.
\<close>

definition ex_store :: store where
  "ex_store =
     [PyList [Str ''A'', Str ''1'', Str ''10'', Str '' '', Str ''30''],
      PyList [Str ''B'', Str ''2'', Str ''20'', Str ''5'', Str ''''],
      PyList [Str ''A'', Str ''3'', Str '''', Str ''7'', Str ''50''],
      PyList [Ref 0, Ref 1, Ref 2],
      PyList [Ref 3],
      PyList [Flt 1, Flt 2, Flt 3], PyList [], PyList [Flt 10], PyList [Flt 4, Flt 6]]"

section \<open>Decimal literals\<close>

text \<open>
  A fragment of what \<^verbatim>\<open>float\<close> accepts: an optional minus sign, digits, and an optional point
  with digits. It instantiates the parameter \<open>fl\<close> where the model is run on a concrete table.
\<close>

definition digit_val :: "char \<Rightarrow> nat option" where
  "digit_val c = map_of (zip ''0123456789'' [0, 1, 2, 3, 4, 5, 6, 7, 8, 9]) c"

fun digits_val :: "nat \<Rightarrow> string \<Rightarrow> nat option" where
  "digits_val acc [] = Some acc"
| "digits_val acc (c # cs) =
     (case digit_val c of None \<Rightarrow> None | Some d \<Rightarrow> digits_val (10 * acc + d) cs)"

definition float_lit :: pyfloat where
  "float_lit s =
     (let neg = (s \<noteq> [] \<and> hd s = CHR ''-'');
          body = (if neg then tl s else s);
          ip = takeWhile (\<lambda>c. c \<noteq> CHR ''.'') body;
          rest = dropWhile (\<lambda>c. c \<noteq> CHR ''.'') body;
          fp = (if rest = [] then [] else tl rest)
      in if ip = [] \<and> fp = [] then None
         else (case (digits_val 0 ip, digits_val 0 fp) of
                 (Some a, Some b) \<Rightarrow>
                   Some ((if neg then - 1 else 1) * (real a + real b / 10 ^ length fp))
               | _ \<Rightarrow> None))"

section \<open>Facts about comprehensions\<close>

lemma collect_map:
  "(\<And>x. x \<in> set xs \<Longrightarrow> f x = Inr (g x)) \<Longrightarrow> collect f xs = Inr (map g xs)"
  by (induction xs) simp_all

lemma collect_if_filter:
  "(\<And>x. x \<in> set xs \<Longrightarrow> p x = Inr (q x)) \<Longrightarrow> collect_if p xs = Inr (filter q xs)"
  by (induction xs) simp_all

lemma getitem_nat:
  "n < length xs \<Longrightarrow> getitem xs (int n) = Inr (xs ! n)"
  by (simp add: getitem_def)

section \<open>The regional groups\<close>

lemma distinct_region_unique: "distinct region_unique"
  by (simp add: region_unique_def)

lemma in_region_eq:
  "2 < length r \<Longrightarrow> in_region region r = Inr (r ! 2 = region)"
  using getitem_nat [of 2 r] by (simp add: in_region_def)

lemma regions_eq:
  assumes "\<forall>r\<in>set data_items. 2 < length r"
  shows "regions data_items = Inr (map (\<lambda>region. filter (\<lambda>r. r ! 2 = region) data_items) region_unique)"
  unfolding regions_def
  by (rule collect_map, rule collect_if_filter) (use assms in \<open>simp add: in_region_eq\<close>)

text \<open>
  Claim C7. Every data row is put into the group of the region keyword that its third field
  (index 2) equals as a string: the group of a keyword is the rows with that field, in input
  order; a row whose field is none of the ten keywords is in no group, and a row is never in
  two groups. The rows are taken to have a third field: on a shorter row the comparison
  raises \<^verbatim>\<open>IndexError\<close>.
\<close>

theorem regions_grouping:
  assumes "\<forall>r\<in>set data_items. 2 < length r"
  shows "\<exists>gs. regions data_items = Inr gs \<and> length gs = 10 \<and> length region_unique = 10 \<and>
           (\<forall>i<10. gs ! i = filter (\<lambda>r. r ! 2 = region_unique ! i) data_items) \<and>
           (\<forall>r\<in>set data_items. \<forall>i<10.
              (r \<in> set (gs ! i)) = (r ! 2 = region_unique ! i)) \<and>
           (\<forall>r\<in>set data_items. r ! 2 \<notin> set region_unique \<longrightarrow> (\<forall>g\<in>set gs. r \<notin> set g)) \<and>
           (\<forall>r\<in>set data_items. \<forall>i<10. \<forall>j<10.
              r \<in> set (gs ! i) \<and> r \<in> set (gs ! j) \<longrightarrow> i = j)"
proof -
  let ?gs = "map (\<lambda>region. filter (\<lambda>r. r ! 2 = region) data_items) region_unique"
  have len: "length region_unique = 10" by (simp add: region_unique_def)
  have nth: "\<And>i. i < 10 \<Longrightarrow> ?gs ! i = filter (\<lambda>r. r ! 2 = region_unique ! i) data_items"
    using len by simp
  have inj: "\<And>i j. i < 10 \<Longrightarrow> j < 10 \<Longrightarrow> region_unique ! i = region_unique ! j \<Longrightarrow> i = j"
    using distinct_region_unique len by (simp add: nth_eq_iff_index_eq)
  have none: "\<And>r g. r ! 2 \<notin> set region_unique \<Longrightarrow> g \<in> set ?gs \<Longrightarrow> r \<notin> set g"
    by auto
  show ?thesis
    apply (rule exI [of _ ?gs])
    apply (intro conjI)
    apply (rule regions_eq [OF assms])
    apply (simp add: len)
    apply (rule len)
    using nth apply blast
    using nth apply simp
    using none apply blast
    using nth inj apply auto
    done
qed

theorem regions_grouping_witness:
  "\<exists>gs. regions [[''Paris'', ''France'', ''Europe''], [''Olympus'', ''Tharsis'', ''Mars''],
                  [''Lyon'', ''France'', ''Europe'']] = Inr gs \<and>
        gs ! 2 = [[''Paris'', ''France'', ''Europe''], [''Lyon'', ''France'', ''Europe'']] \<and>
        gs ! 0 = [] \<and> list_all (\<lambda>g. [''Olympus'', ''Tharsis'', ''Mars''] \<notin> set g) gs"
proof -
  let ?D = "[[''Paris'', ''France'', ''Europe''], [''Olympus'', ''Tharsis'', ''Mars''],
                  [''Lyon'', ''France'', ''Europe'']]"
  have h: "\<forall>r\<in>set ?D. 2 < length r" by simp
  from regions_grouping [OF h] obtain gs where
    r: "regions ?D = Inr gs" and
    n: "\<forall>i<10. gs ! i = filter (\<lambda>r. r ! 2 = region_unique ! i) ?D" and
    o: "\<forall>r\<in>set ?D. r ! 2 \<notin> set region_unique \<longrightarrow> (\<forall>g\<in>set gs. r \<notin> set g)"
    by blast
  from n have "gs ! 2 = filter (\<lambda>r. r ! 2 = region_unique ! 2) ?D"
     "gs ! 0 = filter (\<lambda>r. r ! 2 = region_unique ! 0) ?D" by simp_all
  moreover from o have "list_all (\<lambda>g. [''Olympus'', ''Tharsis'', ''Mars''] \<notin> set g) gs"
    by (simp add: region_unique_def list_all_iff)
  ultimately show ?thesis using r by (simp add: region_unique_def)
qed

section \<open>The cohorts\<close>

lemma pop2010_eq:
  "8 < length x \<Longrightarrow> fl (x ! 8) = Some v \<Longrightarrow> pop2010 fl x = Inr v"
  using getitem_nat [of 8 x] by (simp add: pop2010_def)

lemma aboveregions_eq:
  assumes "\<forall>region\<in>set allregions. \<forall>x\<in>set region. 8 < length x \<and> fl (x ! 8) \<noteq> None"
  shows "aboveregions fl allregions =
           Inr (map (filter (\<lambda>x. the (fl (x ! 8)) > 2000)) allregions)"
  unfolding aboveregions_def
proof (rule collect_map, rule collect_if_filter)
  fix region x assume "region \<in> set allregions" "x \<in> set region"
  with assms have "8 < length x" "fl (x ! 8) \<noteq> None" by auto
  then show "is_above fl x = Inr (2000 < the (fl (x ! 8)))"
    by (auto simp: is_above_def dest: pop2010_eq)
qed

lemma belowregions_eq:
  assumes "\<forall>region\<in>set allregions. \<forall>x\<in>set region. 8 < length x \<and> fl (x ! 8) \<noteq> None"
  shows "belowregions fl allregions =
           Inr (map (filter (\<lambda>x. the (fl (x ! 8)) \<le> 2000)) allregions)"
  unfolding belowregions_def
proof (rule collect_map, rule collect_if_filter)
  fix region x assume "region \<in> set allregions" "x \<in> set region"
  with assms have "8 < length x" "fl (x ! 8) \<noteq> None" by auto
  then show "is_below fl x = Inr (the (fl (x ! 8)) \<le> 2000)"
    by (auto simp: is_below_def dest: pop2010_eq)
qed

text \<open>
  Claim C6. When every record has a field 8 that parses as a number, the cohorts above and
  below are computed without an exception; a record of a region is in the cohort above
  exactly when the value is greater than 2000 and in the cohort below exactly when it is at
  most 2000, so the two cohorts of a region are disjoint and together make up the region.
\<close>

theorem cohorts_partition:
  assumes "\<forall>region\<in>set allregions. \<forall>x\<in>set region. 8 < length x \<and> fl (x ! 8) \<noteq> None"
  shows "\<exists>above below.
           aboveregions fl allregions = Inr above \<and>
           belowregions fl allregions = Inr below \<and>
           length above = length allregions \<and> length below = length allregions \<and>
           (\<forall>i<length allregions.
              above ! i = filter (\<lambda>x. the (fl (x ! 8)) > 2000) (allregions ! i) \<and>
              below ! i = filter (\<lambda>x. the (fl (x ! 8)) \<le> 2000) (allregions ! i) \<and>
              (\<forall>x\<in>set (allregions ! i).
                 (x \<in> set (above ! i)) = (the (fl (x ! 8)) > 2000) \<and>
                 (x \<in> set (below ! i)) = (the (fl (x ! 8)) \<le> 2000)) \<and>
              set (above ! i) \<inter> set (below ! i) = {} \<and>
              set (above ! i) \<union> set (below ! i) = set (allregions ! i))"
proof -
  let ?ab = "map (filter (\<lambda>x. the (fl (x ! 8)) > 2000)) allregions"
  let ?bl = "map (filter (\<lambda>x. the (fl (x ! 8)) \<le> 2000)) allregions"
  have part: "\<And>i. i < length allregions \<Longrightarrow>
      ?ab ! i = filter (\<lambda>x. the (fl (x ! 8)) > 2000) (allregions ! i) \<and>
      ?bl ! i = filter (\<lambda>x. the (fl (x ! 8)) \<le> 2000) (allregions ! i) \<and>
      (\<forall>x\<in>set (allregions ! i).
                 (x \<in> set (?ab ! i)) = (the (fl (x ! 8)) > 2000) \<and>
                 (x \<in> set (?bl ! i)) = (the (fl (x ! 8)) \<le> 2000)) \<and>
              set (?ab ! i) \<inter> set (?bl ! i) = {} \<and>
              set (?ab ! i) \<union> set (?bl ! i) = set (allregions ! i)"
    by (auto simp: not_less)
  show ?thesis
    apply (rule exI [of _ ?ab], rule exI [of _ ?bl])
    apply (intro conjI)
    apply (rule aboveregions_eq [OF assms])
    apply (rule belowregions_eq [OF assms])
    apply simp
    apply simp
    using part apply blast
    done
qed

theorem cohorts_partition_witness:
  "\<exists>above below.
     aboveregions float_lit [[[''a'', '''', '''', '''', '''', '''', '''', '''', ''2500''],
                             [''b'', '''', '''', '''', '''', '''', '''', '''', ''2000'']]] = Inr above \<and>
     belowregions float_lit [[[''a'', '''', '''', '''', '''', '''', '''', '''', ''2500''],
                             [''b'', '''', '''', '''', '''', '''', '''', '''', ''2000'']]] = Inr below \<and>
     above = [[[''a'', '''', '''', '''', '''', '''', '''', '''', ''2500'']]] \<and>
     below = [[[''b'', '''', '''', '''', '''', '''', '''', '''', ''2000'']]]"
proof -
  let ?a = "[''a'', '''', '''', '''', '''', '''', '''', '''', ''2500'']"
  let ?b = "[''b'', '''', '''', '''', '''', '''', '''', '''', ''2000'']"
  have fa: "float_lit ''2500'' = Some 2500" and fb: "float_lit ''2000'' = Some 2000"
    by (simp_all add: float_lit_def digit_val_def)
  have h: "\<forall>region\<in>set [[?a, ?b]]. \<forall>x\<in>set region. 8 < length x \<and> float_lit (x ! 8) \<noteq> None"
    by (simp add: fa fb)
  from cohorts_partition [OF h] obtain above below where
    a: "aboveregions float_lit [[?a, ?b]] = Inr above" and
    b: "belowregions float_lit [[?a, ?b]] = Inr below" and
    la: "length above = 1" and lb: "length below = 1" and
    fa': "above ! 0 = filter (\<lambda>x. the (float_lit (x ! 8)) > 2000) [?a, ?b]" and
    fb': "below ! 0 = filter (\<lambda>x. the (float_lit (x ! 8)) \<le> 2000) [?a, ?b]"
    by fastforce
  have "above ! 0 = [?a]" unfolding fa' by (simp add: fa fb)
  moreover have "below ! 0 = [?b]" unfolding fb' by (simp add: fa fb)
  moreover from la obtain x where "above = [x]" by (cases above) auto
  moreover from lb obtain y where "below = [y]" by (cases below) auto
  ultimately show ?thesis using a b by simp
qed

section \<open>The bootstrap\<close>

lemma length_4E:
  assumes "length xs = 4" obtains a b c d where "xs = [a, b, c, d]"
  using assms by (auto simp: length_Suc_conv numeral_eq_Suc)

lemma length_5E:
  assumes "length xs = 5" obtains a b c d e where "xs = [a, b, c, d, e]"
  using assms by (auto simp: length_Suc_conv numeral_eq_Suc)

lemma bstrap_raises:
  "length data \<noteq> 4 \<Longrightarrow> length data \<noteq> 5 \<Longrightarrow> bstrap ch bs_iter data g = Inl DecadeException"
  by (induction ch bs_iter data g rule: bstrap.induct) simp_all

lemma bstrap_resample_all:
  "length data = 4 \<Longrightarrow> bstrap ch bs_iter data g = Inr (resample_all ch bs_iter 1 data g)"
  "length data = 5 \<Longrightarrow> bstrap ch bs_iter data g = Inr (resample_all ch bs_iter 1000 data g)"
proof -
  show "bstrap ch bs_iter data g = Inr (resample_all ch bs_iter 1 data g)" if "length data = 4"
  proof -
    from that obtain a b c d where "data = [a, b, c, d]" by (rule length_4E)
    then show ?thesis by (simp add: split_def Let_def)
  qed
  show "bstrap ch bs_iter data g = Inr (resample_all ch bs_iter 1000 data g)" if "length data = 5"
  proof -
    from that obtain a b c d e where "data = [a, b, c, d, e]" by (rule length_5E)
    then show ?thesis by (simp add: split_def Let_def)
  qed
qed

lemma resample_index:
  assumes "d \<noteq> []" "in_outcomes (length d) (bs_iter, length d) idx"
  shows "resample index_choice bs_iter k d (idx # rest) =
           (map (\<lambda>row. mean (map (\<lambda>j. d ! j / k) row)) idx, rest)"
proof -
  have rows: "\<And>row. row \<in> set idx \<Longrightarrow> length row = length d \<and> (\<forall>j\<in>set row. j < length d)"
    using assms(2) by (auto simp: in_outcomes_def list_all_iff)
  have "mean_axis1 (take_at (map (\<lambda>x. x / k) d) idx) =
          map (\<lambda>row. mean (map (\<lambda>j. d ! j / k) row)) idx"
    unfolding mean_axis1_def take_at_def mean_def
    by (auto simp: rows cong: map_cong)
  then show ?thesis
    using assms by (simp add: resample_def index_choice_def)
qed

lemma resample_all_index:
  assumes "w \<in> draw_space bs_iter ds"
  shows "\<exists>out. resample_all index_choice bs_iter k ds w = (out, []) \<and> length out = length ds \<and>
           (\<forall>i<length ds.
              (ds ! i = [] \<longrightarrow> out ! i = []) \<and>
              (ds ! i \<noteq> [] \<longrightarrow>
                 in_outcomes (length (ds ! i)) (bs_iter, length (ds ! i)) (draws w ds i) \<and>
                 out ! i = map (\<lambda>row. mean (map (\<lambda>j. ds ! i ! j / k) row)) (draws w ds i)))"
  using assms
proof (induction ds arbitrary: w)
  case Nil
  then show ?case by (simp add: draw_space_def nonempty_def)
next
  case (Cons d ds)
  show ?case
  proof (cases "d = []")
    case True
    with Cons.prems have w: "w \<in> draw_space bs_iter ds"
      by (simp add: draw_space_def nonempty_def)
    from Cons.IH [OF w] obtain out where
      r: "resample_all index_choice bs_iter k ds w = (out, [])" and n: "length out = length ds" and
      p: "\<forall>i<length ds.
              (ds ! i = [] \<longrightarrow> out ! i = []) \<and>
              (ds ! i \<noteq> [] \<longrightarrow>
                 in_outcomes (length (ds ! i)) (bs_iter, length (ds ! i)) (draws w ds i) \<and>
                 out ! i = map (\<lambda>row. mean (map (\<lambda>j. ds ! i ! j / k) row)) (draws w ds i))"
      by blast
    have dr: "\<And>i. draws w (d # ds) (Suc i) = draws w ds i"
      using True by (simp add: draws_def nonempty_def)
    have e: "resample_all index_choice bs_iter k (d # ds) w = ([] # out, [])"
      using True r by (simp add: resample_def)
    show ?thesis
    proof (intro exI [of _ "[] # out"] conjI allI impI)
      show "resample_all index_choice bs_iter k (d # ds) w = ([] # out, [])" by (rule e)
      show "length ([] # out) = length (d # ds)" using n by simp
    next
      fix i assume "i < length (d # ds)" "(d # ds) ! i = []"
      then show "([] # out) ! i = []" using p by (cases i) auto
    next
      fix i assume "i < length (d # ds)" "(d # ds) ! i \<noteq> []"
      then show "in_outcomes (length ((d # ds) ! i)) (bs_iter, length ((d # ds) ! i)) (draws w (d # ds) i)"
        using p True dr by (cases i) auto
    next
      fix i assume "i < length (d # ds)" "(d # ds) ! i \<noteq> []"
      then show "([] # out) ! i =
          map (\<lambda>row. mean (map (\<lambda>j. (d # ds) ! i ! j / k) row)) (draws w (d # ds) i)"
        using p True dr by (cases i) auto
    qed
  next
    case False
    with Cons.prems obtain idx rest where
      w: "w = idx # rest" and io: "in_outcomes (length d) (bs_iter, length d) idx" and
      rest: "rest \<in> draw_space bs_iter ds"
      by (auto simp: draw_space_def nonempty_def list_all2_Cons2)
    from Cons.IH [OF rest] obtain out where
      r: "resample_all index_choice bs_iter k ds rest = (out, [])" and n: "length out = length ds" and
      p: "\<forall>i<length ds.
              (ds ! i = [] \<longrightarrow> out ! i = []) \<and>
              (ds ! i \<noteq> [] \<longrightarrow>
                 in_outcomes (length (ds ! i)) (bs_iter, length (ds ! i)) (draws rest ds i) \<and>
                 out ! i = map (\<lambda>row. mean (map (\<lambda>j. ds ! i ! j / k) row)) (draws rest ds i))"
      by blast
    have dr: "\<And>i. draws w (d # ds) (Suc i) = draws rest ds i"
      using False w by (simp add: draws_def nonempty_def)
    have d0: "draws w (d # ds) 0 = idx"
      using w by (simp add: draws_def nonempty_def)
    let ?b = "map (\<lambda>row. mean (map (\<lambda>j. d ! j / k) row)) idx"
    have e: "resample_all index_choice bs_iter k (d # ds) w = (?b # out, [])"
      using r w resample_index [OF False io] by simp
    show ?thesis
    proof (intro exI [of _ "?b # out"] conjI allI impI)
      show "resample_all index_choice bs_iter k (d # ds) w = (?b # out, [])" by (rule e)
      show "length (?b # out) = length (d # ds)" using n by simp
    next
      fix i assume "i < length (d # ds)" "(d # ds) ! i = []"
      then show "(?b # out) ! i = []" using p False by (cases i) auto
    next
      fix i assume "i < length (d # ds)" "(d # ds) ! i \<noteq> []"
      then show "in_outcomes (length ((d # ds) ! i)) (bs_iter, length ((d # ds) ! i)) (draws w (d # ds) i)"
        using p io d0 dr by (cases i) auto
    next
      fix i assume "i < length (d # ds)" "(d # ds) ! i \<noteq> []"
      then show "(?b # out) ! i =
          map (\<lambda>row. mean (map (\<lambda>j. (d # ds) ! i ! j / k) row)) (draws w (d # ds) i)"
        using p d0 dr by (cases i) auto
    qed
  qed
qed

lemma uniform_fibres:
  assumes fin: "finite S" "finite V"
    and X: "\<And>w. w \<in> S \<Longrightarrow> X w \<in> V"
    and upd_in: "\<And>u w. u \<in> V \<Longrightarrow> w \<in> S \<Longrightarrow> upd u w \<in> S \<and> X (upd u w) = u"
    and upd_id: "\<And>w. w \<in> S \<Longrightarrow> upd (X w) w = w"
    and upd_upd: "\<And>u u' w. u \<in> V \<Longrightarrow> u' \<in> V \<Longrightarrow> w \<in> S \<Longrightarrow> upd u (upd u' w) = upd u w"
    and v: "v \<in> V"
  shows "card {w \<in> S. X w = v} * card V = card S"
proof -
  define F where "F u = {w \<in> S. X w = u}" for u
  have same: "card (F u) = card (F v)" if u: "u \<in> V" for u
  proof -
    have "bij_betw (upd u) (F v) (F u)"
    proof (rule bij_betw_byWitness [where f' = "upd v"])
      show "\<forall>w\<in>F v. upd v (upd u w) = w"
        using upd_upd [OF v u] upd_id by (auto simp: F_def)
      show "\<forall>w\<in>F u. upd u (upd v w) = w"
        using upd_upd [OF u v] upd_id by (auto simp: F_def)
      show "upd u ` F v \<subseteq> F u" using upd_in [OF u] by (auto simp: F_def)
      show "upd v ` F u \<subseteq> F v" using upd_in [OF v] by (auto simp: F_def)
    qed
    then show ?thesis by (simp add: bij_betw_same_card)
  qed
  have S: "S = (\<Union>u\<in>V. F u)" using X by (auto simp: F_def)
  have "card (\<Union>u\<in>V. F u) = (\<Sum>u\<in>V. card (F u))"
  proof (rule card_UN_disjoint)
    show "finite V" by (rule fin)
    show "\<forall>u\<in>V. finite (F u)" using fin by (simp add: F_def)
    show "\<forall>u\<in>V. \<forall>u'\<in>V. u \<noteq> u' \<longrightarrow> F u \<inter> F u' = {}" by (auto simp: F_def)
  qed
  also have "\<dots> = (\<Sum>u\<in>V. card (F v))" using same by simp
  also have "\<dots> = card V * card (F v)" by simp
  finally have "card S = card V * card (F v)" using S by simp
  then show ?thesis by (simp add: F_def mult.commute)
qed

lemma outcomes_eq:
  "outcomes n (R, C) =
     {idx. set idx \<subseteq> {row. set row \<subseteq> {..<n} \<and> length row = C} \<and> length idx = R}"
  by (auto simp: outcomes_def in_outcomes_def list_all_iff)

lemma finite_outcomes: "finite (outcomes n shape)"
proof -
  obtain R C where s: "shape = (R, C)" by (cases shape)
  have "finite {row. set row \<subseteq> {..<n} \<and> length row = C}"
    by (rule finite_lists_length_eq) simp
  then show ?thesis unfolding s outcomes_eq by (rule finite_lists_length_eq)
qed

lemma card_outcomes: "card (outcomes n (R, C)) = n ^ (R * C)"
proof -
  have f: "finite {row. set row \<subseteq> {..<n} \<and> length row = C}"
    by (rule finite_lists_length_eq) simp
  have "card {row. set row \<subseteq> {..<n} \<and> length row = C} = n ^ C"
    using card_lists_length_eq [of "{..<n}" C] by simp
  then have "card (outcomes n (R, C)) = (n ^ C) ^ R"
    unfolding outcomes_eq using card_lists_length_eq [OF f, of R] by simp
  then show ?thesis by (simp add: power_mult [symmetric] mult.commute)
qed

lemma finite_draw_space: "finite (draw_space bs_iter data)"
proof -
  let ?U = "\<Union>d\<in>set data. outcomes (length d) (bs_iter, length d)"
  have "finite ?U" by (simp add: finite_outcomes)
  then have f: "finite {w. set w \<subseteq> ?U \<and> length w = length (nonempty data)}"
    by (rule finite_lists_length_eq)
  have "draw_space bs_iter data \<subseteq> {w. set w \<subseteq> ?U \<and> length w = length (nonempty data)}"
  proof
    fix w assume "w \<in> draw_space bs_iter data"
    then have l: "list_all2 (\<lambda>idx d. in_outcomes (length d) (bs_iter, length d) idx) w (nonempty data)"
      by (simp add: draw_space_def)
    have "set w \<subseteq> ?U"
    proof
      fix x assume "x \<in> set w"
      then obtain k where k: "k < length w" "x = w ! k" by (auto simp: in_set_conv_nth)
      with l have "in_outcomes (length (nonempty data ! k)) (bs_iter, length (nonempty data ! k)) x"
        by (simp add: list_all2_conv_all_nth)
      moreover have "nonempty data ! k \<in> set data"
        using k l nth_mem [of k "nonempty data"]
        by (auto simp: nonempty_def list_all2_lengthD simp del: nth_mem)
      ultimately show "x \<in> ?U" by (auto simp: outcomes_def)
    qed
    with l show "w \<in> {w. set w \<subseteq> ?U \<and> length w = length (nonempty data)}"
      by (simp add: list_all2_lengthD)
  qed
  then show ?thesis using f by (rule finite_subset)
qed

lemma nonempty_position:
  assumes "i < length data" "data ! i \<noteq> []"
  shows "length (nonempty (take i data)) < length (nonempty data)"
    and "nonempty data ! length (nonempty (take i data)) = data ! i"
proof -
  have e: "take i data @ data ! i # drop (Suc i) data = data"
    by (rule id_take_nth_drop [OF assms(1), symmetric])
  have "nonempty (take i data @ data ! i # drop (Suc i) data) =
          nonempty (take i data) @ data ! i # nonempty (drop (Suc i) data)"
    using assms(2) by (simp add: nonempty_def)
  then have "nonempty data = nonempty (take i data) @ data ! i # nonempty (drop (Suc i) data)"
    by (simp only: e)
  then show "length (nonempty (take i data)) < length (nonempty data)"
    and "nonempty data ! length (nonempty (take i data)) = data ! i"
    by simp_all
qed

lemma draw_space_nth:
  assumes "w \<in> draw_space bs_iter data" "i < length data" "data ! i \<noteq> []"
  shows "draws w data i \<in> outcomes (length (data ! i)) (bs_iter, length (data ! i))"
  using assms nonempty_position [OF assms(2,3)]
  by (auto simp: draw_space_def draws_def outcomes_def list_all2_conv_all_nth)

lemma draw_space_update:
  assumes "w \<in> draw_space bs_iter data" "i < length data" "data ! i \<noteq> []"
    and "D \<in> outcomes (length (data ! i)) (bs_iter, length (data ! i))"
  shows "w[length (nonempty (take i data)) := D] \<in> draw_space bs_iter data"
    and "draws (w[length (nonempty (take i data)) := D]) data i = D"
proof -
  note pos = nonempty_position [OF assms(2,3)]
  from assms(1) have l:
    "list_all2 (\<lambda>idx d. in_outcomes (length d) (bs_iter, length d) idx) w (nonempty data)"
    by (simp add: draw_space_def)
  have len: "length w = length (nonempty data)" using l by (rule list_all2_lengthD)
  show "w[length (nonempty (take i data)) := D] \<in> draw_space bs_iter data"
    unfolding draw_space_def mem_Collect_eq
    using l assms(4) pos
    by (auto simp: list_all2_conv_all_nth nth_list_update outcomes_def)
  show "draws (w[length (nonempty (take i data)) := D]) data i = D"
    using pos len by (simp add: draws_def)
qed

lemma joint_card:
  assumes "i < length data" "data ! i \<noteq> []"
    and "D \<in> outcomes (length (data ! i)) (bs_iter, length (data ! i))"
  shows "card {w \<in> draw_space bs_iter data. draws w data i = D} *
           length (data ! i) ^ (bs_iter * length (data ! i)) = card (draw_space bs_iter data)"
proof -
  let ?k = "length (nonempty (take i data))"
  let ?V = "outcomes (length (data ! i)) (bs_iter, length (data ! i))"
  have "card {w \<in> draw_space bs_iter data. draws w data i = D} * card ?V =
          card (draw_space bs_iter data)"
  proof (rule uniform_fibres [where upd = "\<lambda>D w. w[?k := D]"])
    show "finite (draw_space bs_iter data)" by (rule finite_draw_space)
    show "finite ?V" by (rule finite_outcomes)
    show "D \<in> ?V" by (rule assms(3))
    show "draws w data i \<in> ?V" if "w \<in> draw_space bs_iter data" for w
      using that assms(1,2) by (rule draw_space_nth)
    show "w[?k := u] \<in> draw_space bs_iter data \<and> draws (w[?k := u]) data i = u"
      if "u \<in> ?V" "w \<in> draw_space bs_iter data" for u w
      using draw_space_update [OF that(2) assms(1,2) that(1)] by simp
    show "w[?k := draws w data i] = w" for w by (simp add: draws_def)
    show "(w[?k := b])[?k := a] = w[?k := a]" for a b w by simp
  qed
  then show ?thesis by (simp add: card_outcomes)
qed

lemma outcomes_cell:
  assumes "D \<in> outcomes n (R, C)" "r < R" "c < C"
  shows "length D = R" "length (D ! r) = C" "D ! r ! c < n"
  using assms by (auto simp: outcomes_def in_outcomes_def list_all_length)

lemma outcomes_cell_update:
  assumes "D \<in> outcomes n (R, C)" "j < n"
  shows "D[r := (D ! r)[c := j]] \<in> outcomes n (R, C)"
proof (cases "r < length D")
  case True
  from assms have D: "length D = R" "\<And>row. row \<in> set D \<Longrightarrow> length row = C \<and> (\<forall>x\<in>set row. x < n)"
    by (auto simp: outcomes_def in_outcomes_def list_all_iff)
  have row: "length ((D ! r)[c := j]) = C \<and> (\<forall>x\<in>set ((D ! r)[c := j]). x < n)"
    using D(2) [OF nth_mem [OF True]] assms(2) set_update_subset_insert [of "D ! r" c j]
    by auto
  have "\<And>row. row \<in> set (D[r := (D ! r)[c := j]]) \<Longrightarrow> length row = C \<and> (\<forall>x\<in>set row. x < n)"
    using D(2) row set_update_subset_insert [of D r "(D ! r)[c := j]"] by blast
  then show ?thesis
    using D(1) by (auto simp: outcomes_def in_outcomes_def list_all_iff)
next
  case False
  then have "D[r := (D ! r)[c := j]] = D" by (simp add: list_update_beyond)
  with assms(1) show ?thesis by simp
qed

lemma cell_card:
  assumes i: "i < length data" "data ! i \<noteq> []"
    and r: "r < bs_iter" and c: "c < length (data ! i)" and j: "j < length (data ! i)"
  shows "card {w \<in> draw_space bs_iter data. draws w data i ! r ! c = j} * length (data ! i) =
           card (draw_space bs_iter data)"
proof -
  let ?k = "length (nonempty (take i data))"
  let ?n = "length (data ! i)"
  let ?O = "outcomes ?n (bs_iter, ?n)"
  let ?cell = "\<lambda>u D. D[r := (D ! r)[c := u]]"
  let ?upd = "\<lambda>u w. w[?k := ?cell u (draws w data i)]"
  have O: "draws w data i \<in> ?O" if "w \<in> draw_space bs_iter data" for w
    using that i by (rule draw_space_nth)
  have U: "?upd u w \<in> draw_space bs_iter data \<and> draws (?upd u w) data i = ?cell u (draws w data i)"
    if "u < ?n" "w \<in> draw_space bs_iter data" for u w
    using draw_space_update [OF that(2) i outcomes_cell_update [OF O [OF that(2)] that(1)]]
    by simp
  have "card {w \<in> draw_space bs_iter data. draws w data i ! r ! c = j} * card {..<?n} =
          card (draw_space bs_iter data)"
  proof (rule uniform_fibres [where upd = ?upd])
    show "finite (draw_space bs_iter data)" by (rule finite_draw_space)
    show "finite {..<?n}" by simp
    show "j \<in> {..<?n}" using j by simp
    show "draws w data i ! r ! c \<in> {..<?n}" if "w \<in> draw_space bs_iter data" for w
      using outcomes_cell(3) [OF O [OF that] r c] by simp
    show "?upd u w \<in> draw_space bs_iter data \<and> draws (?upd u w) data i ! r ! c = u"
      if "u \<in> {..<?n}" "w \<in> draw_space bs_iter data" for u w
    proof -
      from that have u: "u < ?n" by simp
      note D = outcomes_cell(1,2) [OF O [OF that(2)] r c]
      from U [OF u that(2)] D r c show ?thesis by simp
    qed
    show "?upd (draws w data i ! r ! c) w = w" if "w \<in> draw_space bs_iter data" for w
      by (simp add: draws_def)
    show "?upd a (?upd b w) = ?upd a w"
      if "a \<in> {..<?n}" "b \<in> {..<?n}" "w \<in> draw_space bs_iter data" for a b w
    proof -
      from that have b: "b < ?n" by simp
      note D = outcomes_cell(1,2) [OF O [OF that(3)] r c]
      have "draws (?upd b w) data i = ?cell b (draws w data i)"
        using U [OF b that(3)] by simp
      then have "?upd a (?upd b w) = (?upd b w)[?k := ?cell a (?cell b (draws w data i))]"
        by simp
      also have "?cell a (?cell b (draws w data i)) = ?cell a (draws w data i)"
        using D r by simp
      finally show ?thesis by simp
    qed
  qed
  then show ?thesis by simp
qed

lemma prob_of_card:
  assumes "card {w \<in> S. E w} * n = card S" "w0 \<in> S" "finite S"
  shows "prob S E = 1 / real n"
proof -
  have pos: "card S > 0" using assms(2,3) by (auto simp: card_gt_0_iff)
  then have n: "n \<noteq> 0" using assms(1) by (cases n) auto
  have "real (card {w \<in> S. E w}) * real n = real (card S)"
    using assms(1) by (metis of_nat_mult)
  then show ?thesis
    unfolding prob_def using pos n by (simp add: field_simps)
qed

lemma prob_cell:
  assumes "w0 \<in> draw_space bs_iter data" "i < length data" "data ! i \<noteq> []"
    "r < bs_iter" "c < length (data ! i)" "j < length (data ! i)"
  shows "prob (draw_space bs_iter data) (\<lambda>w. draws w data i ! r ! c = j) =
           1 / real (length (data ! i))"
  using cell_card [OF assms(2-6)] assms(1) finite_draw_space by (rule prob_of_card)

lemma prob_joint:
  assumes "w0 \<in> draw_space bs_iter data" "i < length data" "data ! i \<noteq> []"
    "D \<in> outcomes (length (data ! i)) (bs_iter, length (data ! i))"
  shows "prob (draw_space bs_iter data) (\<lambda>w. draws w data i = D) =
           (1 / real (length (data ! i))) ^ (bs_iter * length (data ! i))"
proof -
  have "prob (draw_space bs_iter data) (\<lambda>w. draws w data i = D) =
          1 / real (length (data ! i) ^ (bs_iter * length (data ! i)))"
    using joint_card [OF assms(2-4)] assms(1) finite_draw_space by (rule prob_of_card)
  then show ?thesis by (simp add: power_one_over)
qed

lemma bstrap_index:
  assumes "length data = 4 \<or> length data = 5" and "w \<in> draw_space bs_iter data"
  shows "\<exists>out. bstrap index_choice bs_iter data w = Inr (out, []) \<and> length out = length data \<and>
           (\<forall>i<length data.
              (data ! i = [] \<longrightarrow> out ! i = []) \<and>
              (data ! i \<noteq> [] \<longrightarrow>
                 in_outcomes (length (data ! i)) (bs_iter, length (data ! i)) (draws w data i) \<and>
                 out ! i =
                   map (\<lambda>row. mean (map (\<lambda>j. data ! i ! j / (if length data = 5 then 1000 else 1)) row))
                     (draws w data i)))"
  using assms(1)
proof
  assume l: "length data = 4"
  from resample_all_index [OF assms(2), of 1] bstrap_resample_all(1) [OF l, of index_choice bs_iter w]
  show ?thesis using l by auto
next
  assume l: "length data = 5"
  from resample_all_index [OF assms(2), of 1000] bstrap_resample_all(2) [OF l, of index_choice bs_iter w]
  show ?thesis using l by auto
qed

text \<open>
  Claim C1. With four or five samples \<^verbatim>\<open>bstrap\<close> returns as many arrays as samples. The array
  of an empty sample is empty. For a sample of \<open>N\<close> values that is not empty the library
  draws an index array of \<open>bs_iter\<close> rows of \<open>N\<close> indices into the sample; the array
  returned has \<open>bs_iter\<close> entries, and its entry \<open>r\<close> is the arithmetic mean of the \<open>N\<close>
  values of the sample in its unit (divided by 1000 for five samples, unchanged for four)
  at the indices of row \<open>r\<close>. The draws are uniform and independent, with replacement: each
  of them is any given index with probability \<open>1 / N\<close>, and the index array as a whole is
  any given array of indices below \<open>N\<close>, repetitions included, with the product of these
  probabilities.
\<close>

theorem bstrap_resamples:
  assumes "length data = 4 \<or> length data = 5" and "w \<in> draw_space bs_iter data"
  shows "\<exists>out. bstrap index_choice bs_iter data w = Inr (out, []) \<and> length out = length data \<and>
           (\<forall>i<length data.
              (data ! i = [] \<longrightarrow> out ! i = []) \<and>
              (data ! i \<noteq> [] \<longrightarrow>
                 length (out ! i) = bs_iter \<and>
                 (\<forall>r<bs_iter.
                    length (draws w data i ! r) = length (data ! i) \<and>
                    out ! i ! r =
                      mean (map (\<lambda>j. data ! i ! j / (if length data = 5 then 1000 else 1))
                              (draws w data i ! r)) \<and>
                    (\<forall>c<length (data ! i). \<forall>j<length (data ! i).
                       prob (draw_space bs_iter data) (\<lambda>v. draws v data i ! r ! c = j) =
                         1 / real (length (data ! i)))) \<and>
                 (\<forall>D\<in>outcomes (length (data ! i)) (bs_iter, length (data ! i)).
                    prob (draw_space bs_iter data) (\<lambda>v. draws v data i = D) =
                      (1 / real (length (data ! i))) ^ (bs_iter * length (data ! i)))))"
proof -
  from bstrap_index [OF assms] obtain out where
    r: "bstrap index_choice bs_iter data w = Inr (out, [])" and n: "length out = length data" and
    p: "\<forall>i<length data.
              (data ! i = [] \<longrightarrow> out ! i = []) \<and>
              (data ! i \<noteq> [] \<longrightarrow>
                 in_outcomes (length (data ! i)) (bs_iter, length (data ! i)) (draws w data i) \<and>
                 out ! i =
                   map (\<lambda>row. mean (map (\<lambda>j. data ! i ! j / (if length data = 5 then 1000 else 1)) row))
                     (draws w data i))"
    by blast
  show ?thesis
  proof (intro exI [of _ out] conjI allI impI ballI)
    show "bstrap index_choice bs_iter data w = Inr (out, [])" by (rule r)
    show "length out = length data" by (rule n)
  next
    fix i assume "i < length data" "data ! i = []"
    then show "out ! i = []" using p by simp
  next
    fix i assume i: "i < length data" "data ! i \<noteq> []"
    then show "length (out ! i) = bs_iter" using p by (simp add: in_outcomes_def)
  next
    fix i r assume i: "i < length data" "data ! i \<noteq> []" and r: "r < bs_iter"
    then show "length (draws w data i ! r) = length (data ! i)"
      using p by (simp add: in_outcomes_def list_all_length)
  next
    fix i r assume i: "i < length data" "data ! i \<noteq> []" and r: "r < bs_iter"
    then show "out ! i ! r =
        mean (map (\<lambda>j. data ! i ! j / (if length data = 5 then 1000 else 1)) (draws w data i ! r))"
      using p by (simp add: in_outcomes_def)
  next
    fix i r c j
    assume "i < length data" "data ! i \<noteq> []" "r < bs_iter" "c < length (data ! i)"
      "j < length (data ! i)"
    with assms(2) show "prob (draw_space bs_iter data) (\<lambda>v. draws v data i ! r ! c = j) =
        1 / real (length (data ! i))"
      by (rule prob_cell)
  next
    fix i D
    assume "i < length data" "data ! i \<noteq> []"
      "D \<in> outcomes (length (data ! i)) (bs_iter, length (data ! i))"
    with assms(2) show "prob (draw_space bs_iter data) (\<lambda>v. draws v data i = D) =
        (1 / real (length (data ! i))) ^ (bs_iter * length (data ! i))"
      by (rule prob_joint)
  qed
qed

theorem bstrap_resamples_witness:
  "bstrap index_choice 2 [[1, 3], [], [10], [4, 6]]
     [[[0, 1], [1, 1]], [[0], [0]], [[1, 0], [0, 0]]] =
     Inr ([[2, 3], [], [10, 10], [5, 4]], []) \<and>
   prob (draw_space 2 [[1, 3], [], [10], [4, 6]])
     (\<lambda>v. draws v [[1, 3], [], [10], [4, 6]] 0 ! 1 ! 0 = 1) = 1 / 2 \<and>
   prob (draw_space 2 [[1, 3], [], [10], [4, 6]])
     (\<lambda>v. draws v [[1, 3], [], [10], [4, 6]] 0 = [[0, 1], [1, 1]]) = 1 / 16"
proof -
  let ?data = "[[1, 3], [], [10], [4, 6]] :: real list list"
  let ?w = "[[[0, 1], [1, 1]], [[0], [0]], [[1, 0], [0, 0]]] :: nat list list list"
  have l: "length ?data = 4 \<or> length ?data = 5" by simp
  have w: "?w \<in> draw_space 2 ?data"
    by (simp add: draw_space_def nonempty_def in_outcomes_def)
  from bstrap_resamples [OF l w] obtain out where
    r: "bstrap index_choice 2 ?data ?w = Inr (out, [])" and
    p: "\<forall>i<length ?data.
              (?data ! i = [] \<longrightarrow> out ! i = []) \<and>
              (?data ! i \<noteq> [] \<longrightarrow>
                 length (out ! i) = 2 \<and>
                 (\<forall>r<2.
                    length (draws ?w ?data i ! r) = length (?data ! i) \<and>
                    out ! i ! r =
                      mean (map (\<lambda>j. ?data ! i ! j / (if length ?data = 5 then 1000 else 1))
                              (draws ?w ?data i ! r)) \<and>
                    (\<forall>c<length (?data ! i). \<forall>j<length (?data ! i).
                       prob (draw_space 2 ?data) (\<lambda>v. draws v ?data i ! r ! c = j) =
                         1 / real (length (?data ! i)))) \<and>
                 (\<forall>D\<in>outcomes (length (?data ! i)) (2, length (?data ! i)).
                    prob (draw_space 2 ?data) (\<lambda>v. draws v ?data i = D) =
                      (1 / real (length (?data ! i))) ^ (2 * length (?data ! i))))"
    by blast
  have i0: "(0::nat) < length ?data" by simp
  have ne: "?data ! 0 \<noteq> []" by simp
  from p [rule_format, OF i0] ne have
    cell: "\<forall>r<2. length (draws ?w ?data 0 ! r) = length (?data ! 0) \<and>
                    out ! 0 ! r =
                      mean (map (\<lambda>j. ?data ! 0 ! j / (if length ?data = 5 then 1000 else 1))
                              (draws ?w ?data 0 ! r)) \<and>
                    (\<forall>c<length (?data ! 0). \<forall>j<length (?data ! 0).
                       prob (draw_space 2 ?data) (\<lambda>v. draws v ?data 0 ! r ! c = j) =
                         1 / real (length (?data ! 0)))" and
    joint: "\<forall>D\<in>outcomes (length (?data ! 0)) (2, length (?data ! 0)).
                    prob (draw_space 2 ?data) (\<lambda>v. draws v ?data 0 = D) =
                      (1 / real (length (?data ! 0))) ^ (2 * length (?data ! 0))"
    by blast+
  have r1: "(1::nat) < 2" by simp
  have c0: "(0::nat) < length (?data ! 0)" by simp
  have j1: "(1::nat) < length (?data ! 0)" by simp
  from cell [rule_format, OF r1] have
    "\<forall>c<length (?data ! 0). \<forall>j<length (?data ! 0).
        prob (draw_space 2 ?data) (\<lambda>v. draws v ?data 0 ! 1 ! c = j) = 1 / real (length (?data ! 0))"
    by blast
  from this [rule_format, OF c0 j1] have
    a: "prob (draw_space 2 ?data) (\<lambda>v. draws v ?data 0 ! 1 ! 0 = 1) = 1 / 2"
    by simp
  have D: "[[0, 1], [1, 1]] \<in> outcomes (length (?data ! 0)) (2, length (?data ! 0))"
    by (simp add: outcomes_def in_outcomes_def)
  from joint [rule_format, OF D] have
    b: "prob (draw_space 2 ?data) (\<lambda>v. draws v ?data 0 = [[0, 1], [1, 1]]) = 1 / 16"
    by (simp add: power_one_over)
  have e: "bstrap index_choice 2 ?data ?w = Inr ([[2, 3], [], [10, 10], [5, 4]], [])"
    by code_simp
  from e a b show ?thesis by simp
qed

section \<open>Location averages\<close>

lemma set_first_occurrences: "set (first_occurrences xs) = set xs"
  by (induction xs) auto

lemma filter_first_occurrences:
  "filter P (first_occurrences xs) = first_occurrences (filter P xs)"
proof (induction xs)
  case (Cons x xs)
  have c: "filter P (filter (\<lambda>y. y \<noteq> x) (first_occurrences xs)) =
        filter (\<lambda>y. y \<noteq> x) (filter P (first_occurrences xs))"
    by (simp add: conj_commute)
  show ?case
  proof (cases "P x")
    case True
    with c Cons show ?thesis by simp
  next
    case False
    then have "x \<notin> set (first_occurrences (filter P xs))"
      by (simp add: set_first_occurrences)
    then have "filter (\<lambda>y. y \<noteq> x) (first_occurrences (filter P xs)) =
               first_occurrences (filter P xs)"
      by (intro filter_True) auto
    with False c Cons show ?thesis by simp
  qed
qed simp

lemma loc_name_unique_eq:
  "loc_name_unique acc xs = acc @ first_occurrences (filter (\<lambda>x. x \<notin> set acc) xs)"
proof (induction xs arbitrary: acc)
  case (Cons x xs)
  show ?case
  proof (cases "x \<in> set acc")
    case True
    then have "count_list acc x \<noteq> 0" by (simp add: count_list_0_iff)
    with True Cons show ?thesis by simp
  next
    case False
    then have c: "count_list acc x = 0" by (simp add: count_list_0_iff)
    have "filter (\<lambda>y. y \<notin> set (acc @ [x])) xs = filter (\<lambda>y. y \<noteq> x) (filter (\<lambda>y. y \<notin> set acc) xs)"
      by (auto intro: filter_cong)
    with False c Cons [of "acc @ [x]"] show ?thesis
      by (simp add: filter_first_occurrences)
  qed
qed simp

lemma loc_name_unique_first: "loc_name_unique [] xs = first_occurrences xs"
  by (simp add: loc_name_unique_eq)

lemma entries_of_index:
  assumes "length col = length loc_name"
  shows "map (\<lambda>i. col ! i) (loc_index loc_name name) = entries_of loc_name col name"
proof -
  have z: "zip loc_name col = map (\<lambda>i. (loc_name ! i, col ! i)) [0..<length loc_name]"
    using assms by (intro nth_equalityI) simp_all
  show ?thesis
    unfolding entries_of_def loc_index_def z
    by (simp add: filter_map comp_def)
qed

lemma add_study_eq:
  assumes "length accs = length data"
    and "\<forall>d\<in>set data. \<not> is_missing (d ! i) \<longrightarrow> fl (d ! i) \<noteq> None"
  shows "add_study fl i data accs =
           Inr (map2 (\<lambda>d a. (fst a + (if is_missing (d ! i) then 0 else the (fl (d ! i))),
                               snd a + (if is_missing (d ! i) then 1 else 0))) data accs)"
  using assms
proof (induction data arbitrary: accs)
  case Nil
  then show ?case by simp
next
  case (Cons d data)
  then obtain a accs' where a: "accs = a # accs'" by (cases accs) auto
  obtain s b where sb: "a = (s, b)" by (cases a)
  from Cons.prems a have "length accs' = length data" by simp
  moreover from Cons.prems have "\<forall>d\<in>set data. \<not> is_missing (d ! i) \<longrightarrow> fl (d ! i) \<noteq> None" by simp
  ultimately have IH: "add_study fl i data accs' =
           Inr (map2 (\<lambda>d a. (fst a + (if is_missing (d ! i) then 0 else the (fl (d ! i))),
                               snd a + (if is_missing (d ! i) then 1 else 0))) data accs')"
    by (rule Cons.IH)
  from Cons.prems have p: "\<not> is_missing (d ! i) \<Longrightarrow> fl (d ! i) \<noteq> None" by simp
  show ?case
    using p by (auto simp: a sb IH is_missing_def)
qed

lemma sum_studies_eq:
  assumes "length accs = length data"
    and "\<forall>d\<in>set data. \<forall>i\<in>set idx. \<not> is_missing (d ! i) \<longrightarrow> fl (d ! i) \<noteq> None"
  shows "sum_studies fl data idx accs =
           Inr (map2 (\<lambda>d a.
                  (fst a + sum_list (map (\<lambda>x. the (fl x))
                                       (filter (\<lambda>x. \<not> is_missing x) (map (\<lambda>i. d ! i) idx))),
                   snd a + length (filter is_missing (map (\<lambda>i. d ! i) idx)))) data accs)"
  using assms
proof (induction idx arbitrary: accs)
  case Nil
  then show ?case by (simp add: map_idI split_def)
next
  case (Cons i idx)
  let ?accs' = "map2 (\<lambda>d a. (fst a + (if is_missing (d ! i) then 0 else the (fl (d ! i))),
                               snd a + (if is_missing (d ! i) then 1 else 0))) data accs"
  have st: "add_study fl i data accs = Inr ?accs'"
    using Cons.prems by (intro add_study_eq) simp_all
  have len: "length ?accs' = length data" using Cons.prems by simp
  have IH: "sum_studies fl data idx ?accs' =
           Inr (map2 (\<lambda>d a.
                  (fst a + sum_list (map (\<lambda>x. the (fl x))
                                       (filter (\<lambda>x. \<not> is_missing x) (map (\<lambda>i. d ! i) idx))),
                   snd a + length (filter is_missing (map (\<lambda>i. d ! i) idx)))) data ?accs')"
    using Cons.prems by (intro Cons.IH [OF len]) simp
  show ?case
    unfolding sum_studies.simps st sum.case IH
    using Cons.prems(1)
    by (auto intro!: nth_equalityI simp: add.assoc)
qed

lemma loc_index_bound: "i \<in> set (loc_index loc_name name) \<Longrightarrow> i < length loc_name"
  by (simp add: loc_index_def)

lemma length_valid_entries:
  "int (length (entries_of loc_name col name)) -
     int (length (filter is_missing (entries_of loc_name col name))) =
   int (length (valid_entries loc_name col name))"
  using sum_length_filter_compl [of is_missing "entries_of loc_name col name"]
  by (simp add: valid_entries_def)

lemma append_mean_valid:
  "append_mean (length (entries_of loc_name col name))
     (s, length (filter is_missing (entries_of loc_name col name))) loc =
   (if valid_entries loc_name col name \<noteq> []
    then loc @ [s / real (length (valid_entries loc_name col name))] else loc)"
  unfolding append_mean.simps length_valid_entries by simp

lemma location_step:
  assumes "length col = length loc_name"
  shows "append_mean (length (loc_index loc_name name))
           (0 + sum_list (map (\<lambda>x. the (fl x))
                  (filter (\<lambda>x. \<not> is_missing x) (map (\<lambda>i. col ! i) (loc_index loc_name name)))),
            0 + length (filter is_missing (map (\<lambda>i. col ! i) (loc_index loc_name name)))) loc =
         loc @ map (\<lambda>name. mean (map (\<lambda>x. the (fl x)) (valid_entries loc_name col name)))
                 (filter (\<lambda>name. valid_entries loc_name col name \<noteq> []) [name])"
proof -
  have n: "length (loc_index loc_name name) = length (entries_of loc_name col name)"
    using entries_of_index [OF assms, of name, symmetric] by simp
  have v: "filter (\<lambda>x. \<not> is_missing x) (entries_of loc_name col name) =
           valid_entries loc_name col name"
    by (simp add: valid_entries_def)
  show ?thesis
    unfolding entries_of_index [OF assms] n add_0 v append_mean_valid
    by (simp add: mean_def)
qed

lemma locations_eq:
  assumes "length locs = length data"
    and "\<forall>d\<in>set data. length d = length loc_name"
    and "\<forall>d\<in>set data. \<forall>x\<in>set d. \<not> is_missing x \<longrightarrow> fl x \<noteq> None"
  shows "locations fl loc_name data names locs =
           Inr (map2 (\<lambda>d loc. loc @
                  map (\<lambda>name. mean (map (\<lambda>x. the (fl x)) (valid_entries loc_name d name)))
                    (filter (\<lambda>name. valid_entries loc_name d name \<noteq> []) names)) data locs)"
  using assms(1)
proof (induction names arbitrary: locs)
  case Nil
  then show ?case by (simp add: map_idI split_def)
next
  case (Cons name names)
  let ?idx = "loc_index loc_name name"
  let ?accs = "map2 (\<lambda>d a.
                  (fst a + sum_list (map (\<lambda>x. the (fl x))
                                       (filter (\<lambda>x. \<not> is_missing x) (map (\<lambda>i. d ! i) ?idx))),
                   snd a + length (filter is_missing (map (\<lambda>i. d ! i) ?idx))))
                data (replicate (length data) (0::real, 0::nat))"
  have parse: "\<forall>d\<in>set data. \<forall>i\<in>set ?idx. \<not> is_missing (d ! i) \<longrightarrow> fl (d ! i) \<noteq> None"
    using assms(2,3) loc_index_bound [of _ loc_name name] by (metis nth_mem)
  have st: "sum_studies fl data ?idx (replicate (length data) (0, 0)) = Inr ?accs"
    using parse by (intro sum_studies_eq) simp_all
  let ?locs' = "map2 (append_mean (length ?idx)) ?accs locs"
  have locs': "?locs' = map2 (\<lambda>d loc. loc @
                  map (\<lambda>name. mean (map (\<lambda>x. the (fl x)) (valid_entries loc_name d name)))
                    (filter (\<lambda>name. valid_entries loc_name d name \<noteq> []) [name])) data locs"
  proof (rule nth_equalityI)
    show "length ?locs' = length (map2 (\<lambda>d loc. loc @
                  map (\<lambda>name. mean (map (\<lambda>x. the (fl x)) (valid_entries loc_name d name)))
                    (filter (\<lambda>name. valid_entries loc_name d name \<noteq> []) [name])) data locs)"
      using Cons.prems by simp
  next
    fix k assume "k < length ?locs'"
    then have k: "k < length data" by simp
    then have "length (data ! k) = length loc_name" using assms(2) by simp
    from location_step [OF this, of name fl "locs ! k"] k Cons.prems
    show "?locs' ! k = (map2 (\<lambda>d loc. loc @
                  map (\<lambda>name. mean (map (\<lambda>x. the (fl x)) (valid_entries loc_name d name)))
                    (filter (\<lambda>name. valid_entries loc_name d name \<noteq> []) [name])) data locs) ! k"
      by simp
  qed
  have len: "length ?locs' = length data" using Cons.prems by simp
  have "locations fl loc_name data (name # names) locs = locations fl loc_name data names ?locs'"
    by (simp only: locations.simps st sum.case)
  also have "\<dots> = Inr (map2 (\<lambda>d loc. loc @
                  map (\<lambda>name. mean (map (\<lambda>x. the (fl x)) (valid_entries loc_name d name)))
                    (filter (\<lambda>name. valid_entries loc_name d name \<noteq> []) names)) data ?locs')"
    by (rule Cons.IH [OF len])
  also have "map2 (\<lambda>d loc. loc @
                  map (\<lambda>name. mean (map (\<lambda>x. the (fl x)) (valid_entries loc_name d name)))
                    (filter (\<lambda>name. valid_entries loc_name d name \<noteq> []) names)) data ?locs' =
             map2 (\<lambda>d loc. loc @
                  map (\<lambda>name. mean (map (\<lambda>x. the (fl x)) (valid_entries loc_name d name)))
                    (filter (\<lambda>name. valid_entries loc_name d name \<noteq> []) (name # names))) data locs"
    unfolding locs' using Cons.prems by (auto intro!: nth_equalityI)
  finally show ?case .
qed

lemma fold_min_ge:
  "n \<le> m \<Longrightarrow> \<forall>x\<in>set rs. n \<le> length x \<Longrightarrow> n \<le> fold (\<lambda>x n. min (length x) n) rs m"
  by (induction rs arbitrary: m) simp_all

lemma zip_star_columns:
  assumes "rows \<noteq> []"
  shows "\<exists>k. zip_star rows = map (column rows) [0..<k] \<and>
             (\<forall>n. (\<forall>r\<in>set rows. n \<le> length r) \<longrightarrow> n \<le> k)"
proof -
  from assms obtain r rs where rows: "rows = r # rs" by (cases rows) auto
  let ?k = "fold (\<lambda>x n. min (length x) n) rs (length r)"
  have "zip_star rows = map (column rows) [0..<?k]"
    by (simp add: zip_star_def rows column_def)
  moreover have "\<forall>n. (\<forall>r\<in>set rows. n \<le> length r) \<longrightarrow> n \<le> ?k"
    by (simp add: rows fold_min_ge)
  ultimately show ?thesis by blast
qed

lemma slice_map_upt:
  assumes "0 \<le> s" "s \<le> e" "nat e \<le> k"
  shows "slice (map f [0..<k]) s e = map f [nat s..<nat e]"
proof -
  have lo: "min s (int k) = s" and hi: "min e (int k) = e" using assms by auto
  have "take (nat (e - s)) (drop (nat s) (map f [0..<k])) = map f (take (nat (e - s)) [nat s..<k])"
    by (simp add: take_map drop_map)
  also have "take (nat (e - s)) [nat s..<k] = [nat s..<nat e]"
    using assms by (simp add: take_upt nat_diff_distrib)
  finally show ?thesis
    using assms by (simp add: slice_def lo hi)
qed

lemma loc_average_eq:
  assumes m: "getitem regions' m = Inr region"
    and wf: "well_formed fl region s e"
  shows "loc_average fl regions' m s e =
           Inr (map (\<lambda>c. location_means fl (column region 0) (column region c)) [nat s..<nat e])"
proof -
  from wf have ne: "region \<noteq> []" and s: "0 \<le> s" and d: "e - s = 4 \<or> e - s = 5"
    and len: "\<forall>r\<in>set region. nat e \<le> length r"
    and parse: "\<forall>r\<in>set region. \<forall>c\<in>{nat s..<nat e}. \<not> is_missing (r ! c) \<longrightarrow> fl (r ! c) \<noteq> None"
    by (auto simp: well_formed_def list_all_iff)
  from zip_star_columns [OF ne] obtain k where
    z: "zip_star region = map (column region) [0..<k]" and
    k: "\<forall>n. (\<forall>r\<in>set region. n \<le> length r) \<longrightarrow> n \<le> k"
    by blast
  from k len have ek: "nat e \<le> k" by blast
  from d s have se: "s \<le> e" "0 < e" by auto
  with ek have k0: "0 < k" by simp
  have name: "getitem (zip_star region) 0 = Inr (column region 0)"
    using k0 getitem_nat [of 0 "zip_star region"] by (simp add: z)
  let ?data = "map (column region) [nat s..<nat e]"
  have sl: "slice (zip_star region) s e = ?data"
    unfolding z using s se(1) ek by (rule slice_map_upt)
  have ld: "int (length ?data) = e - s" using s se by simp
  have cols: "\<forall>d\<in>set ?data. length d = length (column region 0)"
    by (simp add: column_def)
  have p: "\<forall>d\<in>set ?data. \<forall>x\<in>set d. \<not> is_missing x \<longrightarrow> fl x \<noteq> None"
    using parse by (auto simp: column_def)
  have "loc_average fl regions' m s e =
          locations fl (column region 0) ?data (first_occurrences (column region 0))
            (replicate (length ?data) [])"
    unfolding loc_average_def using d ld
    by (simp only: m name sum.case sl Let_def loc_name_unique_first if_True if_False simp_thms)
  also have "\<dots> = Inr (map2 (\<lambda>d loc. loc @
                  map (\<lambda>name. mean (map (\<lambda>x. the (fl x)) (valid_entries (column region 0) d name)))
                    (filter (\<lambda>name. valid_entries (column region 0) d name \<noteq> [])
                       (first_occurrences (column region 0)))) ?data (replicate (length ?data) []))"
    using cols p by (intro locations_eq) simp_all
  also have "map2 (\<lambda>d loc. loc @
                  map (\<lambda>name. mean (map (\<lambda>x. the (fl x)) (valid_entries (column region 0) d name)))
                    (filter (\<lambda>name. valid_entries (column region 0) d name \<noteq> [])
                       (first_occurrences (column region 0)))) ?data (replicate (length ?data) []) =
             map (\<lambda>c. location_means fl (column region 0) (column region c)) [nat s..<nat e]"
    by (auto intro!: nth_equalityI simp: location_means_def)
  finally show ?thesis .
qed

lemma add_entry_error: "add_entry fl x a = Inl err \<Longrightarrow> err = ValueError"
  by (cases a) (auto split: if_splits option.splits)

lemma add_study_error: "add_study fl i data accs = Inl err \<Longrightarrow> err = ValueError"
  by (induction fl i data accs rule: add_study.induct)
     (auto split: sum.splits dest: add_entry_error)

lemma add_study_length:
  "add_study fl i data accs = Inr accs' \<Longrightarrow> length accs = length data \<Longrightarrow>
   length accs' = length data"
  by (induction fl i data accs arbitrary: accs' rule: add_study.induct)
     (auto split: sum.splits)

lemma sum_studies_error: "sum_studies fl data idx accs = Inl err \<Longrightarrow> err = ValueError"
  by (induction idx arbitrary: accs) (auto split: sum.splits dest: add_study_error)

lemma sum_studies_length:
  "sum_studies fl data idx accs = Inr accs' \<Longrightarrow> length accs = length data \<Longrightarrow>
   length accs' = length data"
  by (induction idx arbitrary: accs) (auto split: sum.splits dest: add_study_length)

lemma locations_error: "locations fl loc_name data names locs = Inl err \<Longrightarrow> err = ValueError"
  by (induction names arbitrary: locs) (auto split: sum.splits dest: sum_studies_error)

lemma locations_length:
  "locations fl loc_name data names locs = Inr out \<Longrightarrow> length locs = length data \<Longrightarrow>
   length out = length data"
proof (induction names arbitrary: locs)
  case Nil
  then show ?case by simp
next
  case (Cons name names)
  from Cons.prems(1) obtain accs where
    a: "sum_studies fl data (loc_index loc_name name) (replicate (length data) (0, 0)) = Inr accs"
    and r: "locations fl loc_name data names
              (map2 (append_mean (length (loc_index loc_name name))) accs locs) = Inr out"
    by (auto split: sum.splits)
  from sum_studies_length [OF a] have "length accs = length data" by simp
  with Cons.prems(2) have "length (map2 (append_mean (length (loc_index loc_name name))) accs locs)
      = length data" by simp
  from Cons.IH [OF r this] show ?case .
qed

lemma loc_average_wrong_count:
  assumes "e - s \<noteq> 4" "e - s \<noteq> 5"
  shows "loc_average fl regions' m s e = Inl IndexError \<or>
         loc_average fl regions' m s e = Inl DecadeException"
proof -
  have g: "\<And>xs i err. getitem xs i = Inl err \<Longrightarrow> err = IndexError" for xs :: "'a list"
    by (auto simp: getitem_def Let_def split: if_splits)
  show ?thesis
    using assms g [of regions' m] g [of "zip_star (projr (getitem regions' m))" 0]
    by (auto simp: loc_average_def split: sum.splits)
qed

lemma loc_average_right_count:
  assumes "e - s = 4 \<or> e - s = 5"
  shows "loc_average fl regions' m s e \<noteq> Inl DecadeException"
    and "loc_average fl regions' m s e = Inr out \<Longrightarrow> int (length out) = e - s"
proof -
  have g: "\<And>xs i err. getitem xs i = Inl err \<Longrightarrow> err = IndexError" for xs :: "'a list"
    by (auto simp: getitem_def Let_def split: if_splits)
  show "loc_average fl regions' m s e \<noteq> Inl DecadeException"
    using assms
    by (auto simp: loc_average_def Let_def split: sum.splits if_splits
             dest: g locations_error)
  show "int (length out) = e - s" if "loc_average fl regions' m s e = Inr out"
    using that assms
    by (auto simp: loc_average_def Let_def split: sum.splits if_splits
             dest!: locations_length)
qed

lemma bstrap_returns:
  assumes "length data = 4 \<or> length data = 5"
  shows "\<exists>out g'. bstrap ch bs_iter data g = Inr (out, g') \<and> length out = length data"
  using assms
proof
  assume "length data = 4"
  then obtain a b c d where "data = [a, b, c, d]" by (rule length_4E)
  then show ?thesis by (simp add: split_def Let_def)
next
  assume "length data = 5"
  then obtain a b c d e where "data = [a, b, c, d, e]" by (rule length_5E)
  then show ?thesis by (simp add: split_def Let_def)
qed

text \<open>
  Claim C2. On a well-formed table \<^verbatim>\<open>loc_average\<close> returns one list per decade column, and
  the list of a column holds, for each location name in order of first occurrence that has
  an entry in the column that is not blank, the arithmetic mean of the values of the
  location's entries in the column that are not blank (\<open>location_means\<close>).
\<close>

theorem loc_average_means:
  assumes "getitem regions' m = Inr region" and "well_formed fl region s e"
  shows "\<exists>out. loc_average fl regions' m s e = Inr out \<and> int (length out) = e - s \<and>
           (\<forall>k<length out.
              out ! k = location_means fl (column region 0) (column region (nat s + k)))"
proof -
  from assms(2) have "0 \<le> s" "s \<le> e" by (auto simp: well_formed_def)
  then show ?thesis
    unfolding loc_average_eq [OF assms] by simp
qed

theorem loc_average_means_witness:
  "\<exists>out. loc_average float_lit
            [[[''A'', ''1'', ''10'', '' '', ''30''],
              [''B'', ''2'', ''20'', ''5'', ''''],
              [''A'', ''3'', '''', ''7'', ''50'']]] 0 1 5 = Inr out \<and>
     length out = 4 \<and> out ! 0 = [2, 2] \<and> out ! 1 = [10, 20] \<and> out ! 2 = [7, 5] \<and>
     out ! 3 = [40]"
proof -
  let ?tab = "[[''A'', ''1'', ''10'', '' '', ''30''],
              [''B'', ''2'', ''20'', ''5'', ''''],
              [''A'', ''3'', '''', ''7'', ''50'']]"
  have g: "getitem [?tab] 0 = Inr ?tab" by code_simp
  have wf: "well_formed float_lit ?tab 1 5" by code_simp
  from loc_average_means [OF g wf] obtain out where
    r: "loc_average float_lit [?tab] 0 1 5 = Inr out" and n: "int (length out) = 5 - 1" and
    k: "\<forall>k<length out. out ! k = location_means float_lit (column ?tab 0) (column ?tab (nat 1 + k))"
    by blast
  from n have n4: "length out = 4" by simp
  have "(0::nat) < length out" using n4 by simp
  from k [rule_format, OF this]
  have "out ! 0 = location_means float_lit (column ?tab 0) (column ?tab (nat 1 + 0))" .
  also have "\<dots> = [2, 2]" by code_simp
  finally have o0: "out ! 0 = [2, 2]" .
  have "(1::nat) < length out" using n4 by simp
  from k [rule_format, OF this]
  have "out ! 1 = location_means float_lit (column ?tab 0) (column ?tab (nat 1 + 1))" .
  also have "\<dots> = [10, 20]" by code_simp
  finally have o1: "out ! 1 = [10, 20]" .
  have "(2::nat) < length out" using n4 by simp
  from k [rule_format, OF this]
  have "out ! 2 = location_means float_lit (column ?tab 0) (column ?tab (nat 1 + 2))" .
  also have "\<dots> = [7, 5]" by code_simp
  finally have o2: "out ! 2 = [7, 5]" .
  have "(3::nat) < length out" using n4 by simp
  from k [rule_format, OF this]
  have "out ! 3 = location_means float_lit (column ?tab 0) (column ?tab (nat 1 + 3))" .
  also have "\<dots> = [40]" by code_simp
  finally have o3: "out ! 3 = [40]" .
  from r n4 o0 o1 o2 o3 show ?thesis by blast
qed

text \<open>
  Claim C3. An entry that is the empty string or a single space is missing: it adds one to
  the count that is subtracted and nothing to the sum, so the mean of a location in a decade
  is the sum over its other entries divided by their number, and a location with no other
  entry in a decade adds no element to the list of the decade; the lists of the decades
  need not have the same length.
\<close>

theorem blank_entries_excluded:
  assumes "getitem regions' m = Inr region" and "well_formed fl region s e"
  shows "add_entry fl '''' (sum_loc, sub_loc) = Inr (sum_loc, sub_loc + 1) \<and>
         add_entry fl '' '' (sum_loc, sub_loc) = Inr (sum_loc, sub_loc + 1) \<and>
         (\<exists>out. loc_average fl regions' m s e = Inr out \<and> int (length out) = e - s \<and>
           (\<forall>k<length out.
              out ! k =
                map (\<lambda>name.
                       sum_list (map (\<lambda>x. the (fl x))
                         (filter (\<lambda>x. x \<noteq> '''' \<and> x \<noteq> '' '')
                            (entries_of (column region 0) (column region (nat s + k)) name))) /
                       real (length
                         (filter (\<lambda>x. x \<noteq> '''' \<and> x \<noteq> '' '')
                            (entries_of (column region 0) (column region (nat s + k)) name))))
                  (filter (\<lambda>name.
                       \<exists>x\<in>set (entries_of (column region 0) (column region (nat s + k)) name).
                          x \<noteq> '''' \<and> x \<noteq> '' '')
                     (first_occurrences (column region 0)))))"
proof -
  from assms(2) have "0 \<le> s" "s \<le> e" by (auto simp: well_formed_def)
  moreover have "\<And>names col.
     location_means fl names col =
       map (\<lambda>name.
              sum_list (map (\<lambda>x. the (fl x))
                (filter (\<lambda>x. x \<noteq> '''' \<and> x \<noteq> '' '') (entries_of names col name))) /
              real (length (filter (\<lambda>x. x \<noteq> '''' \<and> x \<noteq> '' '') (entries_of names col name))))
         (filter (\<lambda>name. \<exists>x\<in>set (entries_of names col name). x \<noteq> '''' \<and> x \<noteq> '' '')
            (first_occurrences names))"
    by (simp add: location_means_def valid_entries_def is_missing_def mean_def
                  filter_empty_conv)
  ultimately show ?thesis
    unfolding loc_average_eq [OF assms] by simp
qed

theorem blank_entries_excluded_witness:
  "add_entry float_lit '' '' (0, 0) = Inr (0, 1) \<and>
   (\<exists>out. loc_average float_lit
            [[[''A'', ''1'', ''10'', '' '', ''30''],
              [''B'', ''2'', ''20'', ''5'', ''''],
              [''A'', ''3'', '''', ''7'', ''50'']]] 0 1 5 = Inr out \<and>
     out ! 2 = [7, 5] \<and> length (out ! 2) = 2 \<and> out ! 3 = [40] \<and> length (out ! 3) = 1)"
proof -
  let ?tab = "[[''A'', ''1'', ''10'', '' '', ''30''],
              [''B'', ''2'', ''20'', ''5'', ''''],
              [''A'', ''3'', '''', ''7'', ''50'']]"
  let ?m = "\<lambda>k. map (\<lambda>name.
                       sum_list (map (\<lambda>x. the (float_lit x))
                         (filter (\<lambda>x. x \<noteq> '''' \<and> x \<noteq> '' '')
                            (entries_of (column ?tab 0) (column ?tab (nat 1 + k)) name))) /
                       real (length
                         (filter (\<lambda>x. x \<noteq> '''' \<and> x \<noteq> '' '')
                            (entries_of (column ?tab 0) (column ?tab (nat 1 + k)) name))))
                  (filter (\<lambda>name.
                       \<exists>x\<in>set (entries_of (column ?tab 0) (column ?tab (nat 1 + k)) name).
                          x \<noteq> '''' \<and> x \<noteq> '' '')
                     (first_occurrences (column ?tab 0)))"
  have g: "getitem [?tab] 0 = Inr ?tab" by code_simp
  have wf: "well_formed float_lit ?tab 1 5" by code_simp
  from blank_entries_excluded [OF g wf, of 0 0] obtain out where
    a: "add_entry float_lit '' '' (0, 0) = Inr (0, 0 + 1)" and
    r: "loc_average float_lit [?tab] 0 1 5 = Inr out" and n: "int (length out) = 5 - 1" and
    k: "\<forall>k<length out. out ! k = ?m k"
    by blast
  from n have n4: "length out = 4" by simp
  have "(2::nat) < length out" using n4 by simp
  from k [rule_format, OF this] have "out ! 2 = ?m 2" .
  also have "\<dots> = [7, 5]" by code_simp
  finally have o2: "out ! 2 = [7, 5]" .
  have "(3::nat) < length out" using n4 by simp
  from k [rule_format, OF this] have "out ! 3 = ?m 3" .
  also have "\<dots> = [40]" by code_simp
  finally have o3: "out ! 3 = [40]" .
  from a r o2 o3 show ?thesis by simp
qed

section \<open>The number of decades, and the scale\<close>

text \<open>
  With four decades asked for, \<^verbatim>\<open>loc_average\<close> can still raise instead of returning a tuple:
  \<^verbatim>\<open>IndexError\<close> on a region with no rows, \<^verbatim>\<open>ValueError\<close> on an entry that is not a number.
\<close>

theorem loc_average_raises_counterexample:
  "(13::int) - 9 = 4 \<and> loc_average float_lit [[]] 0 9 13 = Inl IndexError \<and>
   (5::int) - 1 = 4 \<and>
   loc_average float_lit [[[''A'', ''1'', ''n/a'', ''3'', ''4'']]] 0 1 5 = Inl ValueError"
  by code_simp

text \<open>
  Claim C4, amended. \<^verbatim>\<open>bstrap\<close> raises its exception when the samples are neither four nor
  five, and otherwise returns as many arrays as samples. \<^verbatim>\<open>loc_average\<close> raises (the
  exception of the decades, or \<^verbatim>\<open>IndexError\<close> from reading the names first) when the columns
  asked for are neither four nor five; when they are four or five it never raises the
  exception of the decades, every tuple it returns has that many lists, and it does return
  one on a well-formed table.
\<close>

theorem decade_count_checked:
  "(length data \<noteq> 4 \<and> length data \<noteq> 5 \<longrightarrow>
      bstrap ch bs_iter data g = Inl DecadeException) \<and>
   (length data = 4 \<or> length data = 5 \<longrightarrow>
      (\<exists>out g'. bstrap ch bs_iter data g = Inr (out, g') \<and> length out = length data)) \<and>
   (e - s \<noteq> 4 \<and> e - s \<noteq> 5 \<longrightarrow>
      loc_average fl regions' m s e = Inl IndexError \<or>
      loc_average fl regions' m s e = Inl DecadeException) \<and>
   (e - s = 4 \<or> e - s = 5 \<longrightarrow>
      loc_average fl regions' m s e \<noteq> Inl DecadeException \<and>
      (\<forall>out. loc_average fl regions' m s e = Inr out \<longrightarrow> int (length out) = e - s)) \<and>
   (getitem regions' m = Inr region \<and> well_formed fl region s e \<longrightarrow>
      (\<exists>out. loc_average fl regions' m s e = Inr out \<and> int (length out) = e - s))"
proof (intro conjI impI)
  assume "length data \<noteq> 4 \<and> length data \<noteq> 5"
  then show "bstrap ch bs_iter data g = Inl DecadeException"
    by (simp add: bstrap_raises)
next
  assume "length data = 4 \<or> length data = 5"
  then show "\<exists>out g'. bstrap ch bs_iter data g = Inr (out, g') \<and> length out = length data"
    by (rule bstrap_returns)
next
  assume "e - s \<noteq> 4 \<and> e - s \<noteq> 5"
  then show "loc_average fl regions' m s e = Inl IndexError \<or>
             loc_average fl regions' m s e = Inl DecadeException"
    by (simp add: loc_average_wrong_count)
next
  assume "e - s = 4 \<or> e - s = 5"
  then show "loc_average fl regions' m s e \<noteq> Inl DecadeException"
    by (rule loc_average_right_count)
next
  assume "e - s = 4 \<or> e - s = 5"
  then show "\<forall>out. loc_average fl regions' m s e = Inr out \<longrightarrow> int (length out) = e - s"
    using loc_average_right_count(2) by blast
next
  assume a: "getitem regions' m = Inr region \<and> well_formed fl region s e"
  then have "0 \<le> s" "s \<le> e" by (auto simp: well_formed_def)
  then show "\<exists>out. loc_average fl regions' m s e = Inr out \<and> int (length out) = e - s"
    using a by (simp add: loc_average_eq)
qed

theorem decade_count_checked_witness:
  "bstrap cyclic_choice 3 [[1], [2], [3]] (0::nat) = Inl DecadeException \<and>
   (\<exists>out g'. bstrap cyclic_choice 3 [[1], [2], [3], [4], [5]] (0::nat) = Inr (out, g') \<and>
      length out = 5) \<and>
   loc_average float_lit [[[''A'', ''1'', ''2'', ''3'', ''4'']]] 0 1 4 = Inl DecadeException \<and>
   (\<exists>out. loc_average float_lit [[[''A'', ''1'', ''2'', ''3'', ''4'']]] 0 1 5 = Inr out \<and>
      length out = 4)"
proof -
  let ?r = "[[''A'', ''1'', ''2'', ''3'', ''4'']]"
  let ?d3 = "[[1], [2], [3 :: real]]"
  let ?d5 = "[[1], [2], [3], [4], [5 :: real]]"
  have g: "getitem [?r] 0 = Inr ?r" by code_simp
  have wf: "well_formed float_lit ?r 1 5" by code_simp
  note t3 = decade_count_checked [where data = ?d3 and ch = cyclic_choice and bs_iter = 3
      and g = "0::nat" and fl = float_lit and regions' = "[?r]" and m = 0 and s = 1 and e = 4
      and region = ?r]
  note t5 = decade_count_checked [where data = ?d5 and ch = cyclic_choice and bs_iter = 3
      and g = "0::nat" and fl = float_lit and regions' = "[?r]" and m = 0 and s = 1 and e = 5
      and region = ?r]
  have a: "bstrap cyclic_choice 3 ?d3 (0::nat) = Inl DecadeException"
    by (rule mp [OF t3 [THEN conjunct1]]) simp
  have "\<exists>out g'. bstrap cyclic_choice 3 ?d5 (0::nat) = Inr (out, g') \<and> length out = length ?d5"
    by (rule mp [OF t5 [THEN conjunct2, THEN conjunct1]]) simp
  then obtain out g' where
    "bstrap cyclic_choice 3 ?d5 (0::nat) = Inr (out, g')" "length out = length ?d5"
    by blast
  moreover from this(2) have "length out = 5" by simp
  ultimately have b: "\<exists>out g'. bstrap cyclic_choice 3 ?d5 (0::nat) = Inr (out, g') \<and> length out = 5"
    by blast
  have "loc_average float_lit [?r] 0 1 4 = Inl IndexError \<or>
        loc_average float_lit [?r] 0 1 4 = Inl DecadeException"
    by (rule mp [OF t3 [THEN conjunct2, THEN conjunct2, THEN conjunct1]]) simp
  moreover have "loc_average float_lit [?r] 0 1 4 \<noteq> Inl IndexError" by code_simp
  ultimately have c: "loc_average float_lit [?r] 0 1 4 = Inl DecadeException" by blast
  have "\<exists>out. loc_average float_lit [?r] 0 1 5 = Inr out \<and> int (length out) = 5 - 1"
    by (rule mp [OF t5 [THEN conjunct2, THEN conjunct2, THEN conjunct2, THEN conjunct2]])
       (simp only: g wf simp_thms)
  then have d: "\<exists>out. loc_average float_lit [?r] 0 1 5 = Inr out \<and> length out = 4"
    by simp
  from a b c d show ?thesis by blast
qed




section \<open>Output file names\<close>

text \<open>
  Claim C8. The names of the output files are computed from the path of the input file
  alone: the summary is \<^verbatim>\<open>regional_location_summary\<close> with the extension of the input file,
  the spreadsheet is \<^verbatim>\<open>regional_location_bstrap.xlsx\<close>, and the twelve images are the names
  \<^verbatim>\<open>cohort_kind_scale.png\<close> for the three cohorts, the kinds \<^verbatim>\<open>rates\<close> and \<^verbatim>\<open>PD\<close> and the
  scales \<^verbatim>\<open>linear\<close> and \<^verbatim>\<open>log\<close>, all joined to the directory of the input file; the tables
  read from the file have no part in them.
\<close>

theorem output_file_names:
  "summary_output_file os input_file =
     path_join os (fst (path_split os input_file))
       (''regional_location_summary'' @ snd (path_splitext os input_file)) \<and>
   bstrap_output_file os input_file =
     path_join os (fst (path_split os input_file)) ''regional_location_bstrap.xlsx'' \<and>
   png_files os input_file all1 above1 below1 =
     concat (map (\<lambda>cohort.
       concat (map (\<lambda>scale.
         map (\<lambda>kind. path_join os (fst (path_split os input_file))
                        (cohort @ ''_'' @ kind @ ''_'' @ scale @ ''.png''))
           [''rates'', ''PD''])
         [''linear'', ''log'']))
       [''regional_all_location'', ''regional_above_location'', ''regional_below_location'']) \<and>
   length (png_files os input_file all1 above1 below1) = 12 \<and>
   png_files os input_file all1 above1 below1 = png_files os input_file all2 above2 below2"
  by (simp add: summary_output_file_def bstrap_output_file_def png_files_def
                plot_linear_files_def plot_log_files_def)

section \<open>Recovery from exceptions and warnings\<close>

lemma try_mean_empty: "try_mean [] = Inr NaN"
  by (simp add: try_mean_def py_mean_def)

lemma try_mean_nonempty: "xs \<noteq> [] \<Longrightarrow> try_mean xs = Inr (Val (mean xs))"
  by (simp add: try_mean_def py_mean_def mean_def)

lemma first_raised_append:
  "first_raised (xs @ ys) = (case first_raised xs of Some e \<Rightarrow> Some e | None \<Rightarrow> first_raised ys)"
  by (induction xs rule: first_raised.induct) simp_all

lemma raised_simps [simp]: "raised (Inl e) = Some e" "raised (Inr v) = None"
  by (simp_all add: raised_def)

lemma raised_None: "raised r = None \<longleftrightarrow> (\<exists>v. r = Inr v)"
  by (cases r) simp_all

lemma raised_Some: "raised r = Some e \<longleftrightarrow> r = Inl e"
  by (cases r) simp_all

lemma raised_collect: "raised (collect f xs) = first_raised (map (\<lambda>x. raised (f x)) xs)"
  by (induction xs) (auto split: sum.splits)

lemma raised_for_regions:
  assumes "\<And>m g. raised (body m g) = R m"
  shows "raised (for_regions body ms g) = first_raised (map R ms)"
proof (induction ms arbitrary: g)
  case Nil
  show ?case by simp
next
  case (Cons m ms)
  show ?case
  proof (cases "body m g")
    case (Inl e)
    with assms [of m g] have "R m = Some e" by simp
    with Inl show ?thesis by simp
  next
    case (Inr p)
    obtain y g1 where p: "p = (y, g1)" by (cases p)
    from Inr assms [of m g] have R: "R m = None" by simp
    from Cons.IH [of g1] show ?thesis
      using Inr p R by (cases "for_regions body ms g1") auto
  qed
qed

lemma collect_try_mean:
  "collect try_mean pops = Inr (map (\<lambda>xs. if xs = [] then NaN else Val (mean xs)) pops)"
proof -
  have "\<And>xs. try_mean xs = Inr (if xs = [] then NaN else Val (mean xs))"
    by (simp add: try_mean_empty try_mean_nonempty)
  then show ?thesis by (intro collect_map) simp
qed

lemma loc_average_count:
  assumes "loc_average fl regions' m s e = Inr out" "e - s = 4 \<or> e - s = 5"
  shows "length out = nat (e - s)"
  using loc_average_right_count(2) [OF assms(2) assms(1)] by simp

lemma region_means_body:
  "(case loc_average fl regions' (int m) 9 13 of
      Inl e \<Rightarrow> Inl e
    | Inr pops \<Rightarrow> if length pops \<noteq> 4 then Inl ValueError else collect try_mean pops) =
   (case loc_average fl regions' (int m) 9 13 of
      Inl e \<Rightarrow> Inl e
    | Inr pops \<Rightarrow> Inr (map (\<lambda>xs. if xs = [] then NaN else Val (mean xs)) pops))"
proof (cases "loc_average fl regions' (int m) 9 13")
  case (Inl e)
  then show ?thesis by simp
next
  case (Inr pops)
  from loc_average_count [OF Inr] have "length pops = 4" by simp
  with Inr show ?thesis by (simp add: collect_try_mean)
qed

lemma raised_region_means:
  "raised (region_means fl regions') = first_raised (loc_average_calls fl regions' 9 13)"
  unfolding region_means_def raised_collect loc_average_calls_def region_means_body
  by (rule arg_cong [where f = first_raised]) (auto split: sum.splits)

lemma region_means_values:
  assumes "region_means fl regions' = Inr rm" "m < length region_unique"
  shows "\<exists>pops. loc_average fl regions' (int m) 9 13 = Inr pops \<and>
           rm ! m = map (\<lambda>xs. if xs = [] then NaN else Val (mean xs)) pops"
proof -
  let ?f = "\<lambda>m. case loc_average fl regions' (int m) 9 13 of
                     Inl e \<Rightarrow> Inl e
                   | Inr pops \<Rightarrow> Inr (map (\<lambda>xs. if xs = [] then NaN else Val (mean xs)) pops)"
  have c: "collect ?f [0..<length region_unique] = Inr rm"
    using assms(1) unfolding region_means_def region_means_body .
  have g: "\<And>ys. collect ?f xs = Inr ys \<Longrightarrow> length ys = length xs \<and> (\<forall>i<length xs. ?f (xs ! i) = Inr (ys ! i))"
    for xs
  proof (induction xs)
    case Nil
    then show ?case by simp
  next
    case (Cons x xs)
    from Cons.prems obtain y ys' where
      y: "?f x = Inr y" and r: "collect ?f xs = Inr ys'" and ys: "ys = y # ys'"
      by (auto split: sum.splits)
    from Cons.IH [OF r] y ys show ?case
      by (auto simp: nth_Cons split: nat.splits)
  qed
  from g [OF c] assms(2) have "?f m = Inr (rm ! m)" by auto
  then show ?thesis by (auto split: sum.splits)
qed

lemma raised_bstrap_region:
  assumes "e - s = int n" "n = 4 \<or> n = 5"
  shows "raised (bstrap_region fl ch numpy_mean numpy_median regions' s e n m g) =
           raised (loc_average fl regions' (int m) s e)"
proof (cases "loc_average fl regions' (int m) s e")
  case (Inl err)
  then show ?thesis by (simp add: bstrap_region_def)
next
  case (Inr data)
  from assms have es: "e - s = 4 \<or> e - s = 5" by auto
  from loc_average_count [OF Inr es] assms(1) have l: "length data = n" by simp
  with assms(2) have "length data = 4 \<or> length data = 5" by simp
  from bstrap_returns [OF this, of ch 1000 g] obtain bs g' where
    b: "bstrap ch 1000 data g = Inr (bs, g')" and lb: "length bs = length data"
    by blast
  show ?thesis using Inr l b lb by (simp add: bstrap_region_def unpack_def)
qed

lemma bstrap_region_Inr:
  assumes "bstrap_region fl ch numpy_mean numpy_median regions' s e n m g = Inr ((bs, st), g')"
  shows "length bs = n" and "st = summary_stats numpy_mean numpy_median bs"
    and "\<exists>data. loc_average fl regions' (int m) s e = Inr data"
  using assms
  by (auto simp: bstrap_region_def unpack_def split: sum.splits if_splits prod.splits)

lemma for_regions_Inr:
  assumes "for_regions body ms g = Inr (ys, g')"
  shows "length ys = length ms \<and> (\<forall>i<length ms. \<exists>g0 g1. body (ms ! i) g0 = Inr (ys ! i, g1))"
  using assms
proof (induction ms arbitrary: g ys)
  case Nil
  then show ?case by simp
next
  case (Cons m ms)
  from Cons.prems obtain y g1 ys' where
    b: "body m g = Inr (y, g1)" and r: "for_regions body ms g1 = Inr (ys', g')" and
    ys: "ys = y # ys'"
    by (auto split: sum.splits prod.splits)
  from Cons.IH [OF r] have len: "length ys' = length ms" and
    all: "\<forall>i<length ms. \<exists>g0 g1. body (ms ! i) g0 = Inr (ys' ! i, g1)"
    by blast+
  show ?case
  proof (intro conjI allI impI)
    show "length ys = length (m # ms)" using len ys by simp
    fix i assume "i < length (m # ms)"
    then show "\<exists>g0 g1. body ((m # ms) ! i) g0 = Inr (ys ! i, g1)"
      using b all ys by (cases i) auto
  qed
qed

lemma first_raised_None: "first_raised rs = None \<longleftrightarrow> (\<forall>r\<in>set rs. r = None)"
  by (induction rs rule: first_raised.induct) auto

lemma first_raised_concat:
  "first_raised (concat (map f xs)) = first_raised (map (\<lambda>x. first_raised (f x)) xs)"
proof (induction xs)
  case Nil
  show ?case by simp
next
  case (Cons x xs)
  then show ?case
    by (cases "first_raised (f x)") (simp_all add: first_raised_append)
qed

lemma raised_plot_linear:
  "raised (plot_linear fl ch numpy_mean numpy_median regions' g) =
     first_raised (loc_average_calls fl regions' 9 13 @ loc_average_calls fl regions' 18 22 @
                   loc_average_calls fl regions' 22 27)"
proof -
  let ?ms = "[0..<length region_unique]"
  have r1: "raised (for_regions (bstrap_region fl ch numpy_mean numpy_median regions' 18 22 4) ?ms g0) =
              first_raised (loc_average_calls fl regions' 18 22)" for g0
    unfolding loc_average_calls_def
    by (rule raised_for_regions) (simp add: raised_bstrap_region)
  have r2: "raised (for_regions (bstrap_region fl ch numpy_mean numpy_median regions' 22 27 5) ?ms g0) =
              first_raised (loc_average_calls fl regions' 22 27)" for g0
    unfolding loc_average_calls_def
    by (rule raised_for_regions) (simp add: raised_bstrap_region)
  show ?thesis
  proof (cases "region_means fl regions'")
    case (Inl e)
    with raised_region_means [of fl regions', symmetric] show ?thesis
      by (simp add: plot_linear_def first_raised_append)
  next
    case rm: (Inr rm)
    with raised_region_means [of fl regions', symmetric] have
      a: "first_raised (loc_average_calls fl regions' 9 13) = None" by simp
    show ?thesis
    proof (cases "for_regions (bstrap_region fl ch numpy_mean numpy_median regions' 18 22 4) ?ms g")
      case (Inl e)
      with r1 [of g, symmetric] show ?thesis
        using rm a by (simp add: plot_linear_def first_raised_append)
    next
      case rates: (Inr p)
      obtain rates g1 where p: "p = (rates, g1)" by (cases p)
      from rates r1 [of g, symmetric] have
        b: "first_raised (loc_average_calls fl regions' 18 22) = None" by simp
      show ?thesis
      proof (cases "for_regions (bstrap_region fl ch numpy_mean numpy_median regions' 22 27 5) ?ms g1")
        case (Inl e)
        with r2 [of g1, symmetric] show ?thesis
          using rm rates p a b by (simp add: plot_linear_def first_raised_append)
      next
        case (Inr q)
        obtain pds g2 where q: "q = (pds, g2)" by (cases q)
        from Inr r2 [of g1, symmetric] have
          c: "first_raised (loc_average_calls fl regions' 22 27) = None" by simp
        show ?thesis
          using rm rates p Inr q a b c by (simp add: plot_linear_def first_raised_append)
      qed
    qed
  qed
qed

lemma plot_linear_Inr:
  assumes "plot_linear fl ch numpy_mean numpy_median regions' g = Inr (out, g')"
  shows "escaped out = []"
    and "summary out =
           map (\<lambda>bs. (map (\<lambda>b. fst (numpy_mean b)) bs, map (\<lambda>b. fst (numpy_median b)) bs))
             (bs_pack1 out @ bs_pack2 out)"
    and "length (bs_pack1 out) = length region_unique"
    and "length (bs_pack2 out) = length region_unique"
    and "\<forall>bs\<in>set (bs_pack1 out). length bs = 4"
    and "\<forall>bs\<in>set (bs_pack2 out). length bs = 5"
proof -
  let ?ms = "[0..<length region_unique]"
  from assms obtain rm rates g1 pds where
    r: "for_regions (bstrap_region fl ch numpy_mean numpy_median regions' 18 22 4) ?ms g = Inr (rates, g1)" and
    p: "for_regions (bstrap_region fl ch numpy_mean numpy_median regions' 22 27 5) ?ms g1 = Inr (pds, g')" and
    out: "out = \<lparr>bs_pack1 = map fst rates, bs_pack2 = map fst pds, means = rm,
                  summary = map (\<lambda>r. fst (snd r)) (rates @ pds),
                  escaped = concat (map (\<lambda>r. snd (snd r)) (rates @ pds))\<rparr>"
    by (auto simp: plot_linear_def split: sum.splits prod.splits)
  have el: "length (fst y) = n \<and> snd y = summary_stats numpy_mean numpy_median (fst y)"
    if "for_regions (bstrap_region fl ch numpy_mean numpy_median regions' s e n) ?ms g0 = Inr (ys, g3)"
      "y \<in> set ys" for s e n g0 ys g3 y
  proof -
    from for_regions_Inr [OF that(1)] have len: "length ys = length ?ms" and
      all: "\<forall>i<length ?ms. \<exists>ga gb.
              bstrap_region fl ch numpy_mean numpy_median regions' s e n (?ms ! i) ga = Inr (ys ! i, gb)"
      by blast+
    from that(2) len obtain i where i: "i < length ?ms" "y = ys ! i"
      by (auto simp: in_set_conv_nth)
    with all obtain ga gb where
      "bstrap_region fl ch numpy_mean numpy_median regions' s e n (?ms ! i) ga = Inr ((fst y, snd y), gb)"
      by auto
    from bstrap_region_Inr(1,2) [OF this] show ?thesis by simp
  qed
  have st0: "snd y = summary_stats numpy_mean numpy_median (fst y)" if "y \<in> set (rates @ pds)" for y
  proof -
    from that have "y \<in> set rates \<or> y \<in> set pds" by simp
    then show ?thesis using el [OF r] el [OF p] by blast
  qed
  have st: "snd y = ((map (\<lambda>b. fst (numpy_mean b)) (fst y), map (\<lambda>b. fst (numpy_median b)) (fst y)), [])"
    if "y \<in> set (rates @ pds)" for y
    unfolding st0 [OF that] by (simp add: summary_stats_def catch_warnings_ignore_def)
  show "escaped out = []" using st by (simp add: out)
  have "map (\<lambda>r. fst (snd r)) (rates @ pds) =
          map (\<lambda>r. (map (\<lambda>b. fst (numpy_mean b)) (fst r), map (\<lambda>b. fst (numpy_median b)) (fst r)))
            (rates @ pds)"
    by (rule map_cong [OF refl]) (simp add: st)
  then show "summary out =
           map (\<lambda>bs. (map (\<lambda>b. fst (numpy_mean b)) bs, map (\<lambda>b. fst (numpy_median b)) bs))
             (bs_pack1 out @ bs_pack2 out)"
    by (simp add: out comp_def)
  show "length (bs_pack1 out) = length region_unique"
    using for_regions_Inr [OF r] by (simp add: out)
  show "length (bs_pack2 out) = length region_unique"
    using for_regions_Inr [OF p] by (simp add: out)
  show "\<forall>bs\<in>set (bs_pack1 out). length bs = 4" using el [OF r] by (auto simp: out)
  show "\<forall>bs\<in>set (bs_pack2 out). length bs = 5" using el [OF p] by (auto simp: out)
qed

lemma raised_log_region:
  assumes "e - s = int n" "n = 4 \<or> n = 5"
  shows "raised (log_region fl regions' bs_pack s e n m) =
           first_raised [raised (case getitem bs_pack (int m) of
                                  Inl err \<Rightarrow> Inl err
                                | Inr bs \<Rightarrow> unpack n bs),
                         raised (loc_average fl regions' (int m) s e)]"
proof -
  from assms have es: "e - s = 4 \<or> e - s = 5" by auto
  have "unpack n data = Inr data" if "loc_average fl regions' (int m) s e = Inr data" for data
    using loc_average_count [OF that es] assms(1) by (simp add: unpack_def)
  then show ?thesis
    by (auto simp: log_region_def split: sum.splits)
qed

lemma raised_plot_log:
  "raised (plot_log fl regions' pack1 pack2) =
     first_raised (log_calls fl regions' pack1 18 22 4 @ log_calls fl regions' pack2 22 27 5)"
proof -
  let ?ms = "[0..<length region_unique]"
  have a: "raised (collect (log_region fl regions' pack1 18 22 4) ?ms) =
             first_raised (log_calls fl regions' pack1 18 22 4)"
    unfolding raised_collect log_calls_def first_raised_concat
    by (simp add: raised_log_region)
  have b: "raised (collect (log_region fl regions' pack2 22 27 5) ?ms) =
             first_raised (log_calls fl regions' pack2 22 27 5)"
    unfolding raised_collect log_calls_def first_raised_concat
    by (simp add: raised_log_region)
  show ?thesis
  proof (cases "collect (log_region fl regions' pack1 18 22 4) ?ms")
    case (Inl e)
    with a [symmetric] show ?thesis by (simp add: plot_log_def first_raised_append)
  next
    case (Inr rates)
    with a [symmetric] have "first_raised (log_calls fl regions' pack1 18 22 4) = None" by simp
    with Inr b [symmetric] show ?thesis
      by (cases "collect (log_region fl regions' pack2 22 27 5) ?ms")
         (simp_all add: plot_log_def first_raised_append)
  qed
qed

lemma log_calls_after_linear:
  assumes "length bs_pack = length region_unique" "\<forall>bs\<in>set bs_pack. length bs = n"
    and "first_raised (loc_average_calls fl regions' s e) = None"
  shows "first_raised (log_calls fl regions' bs_pack s e n) = None"
proof -
  have "raised (case getitem bs_pack (int m) of Inl err \<Rightarrow> Inl err | Inr bs \<Rightarrow> unpack n bs) = None"
    if "m < length region_unique" for m
    using that assms(1,2) by (simp add: getitem_nat unpack_def)
  moreover have "raised (loc_average fl regions' (int m) s e) = None"
    if "m < length region_unique" for m
    using that assms(3) by (simp add: first_raised_None loc_average_calls_def)
  ultimately show ?thesis
    by (simp add: first_raised_None log_calls_def)
qed

lemma raised_cohort:
  "raised (cohort fl ch numpy_mean numpy_median regions' g) =
     first_raised (loc_average_calls fl regions' 9 13 @ loc_average_calls fl regions' 18 22 @
                   loc_average_calls fl regions' 22 27)"
proof (cases "plot_linear fl ch numpy_mean numpy_median regions' g")
  case (Inl e)
  with raised_plot_linear [of fl ch numpy_mean numpy_median regions' g, symmetric] show ?thesis
    by (simp add: cohort_def)
next
  case (Inr p)
  obtain out g' where p: "p = (out, g')" by (cases p)
  from Inr p have l: "plot_linear fl ch numpy_mean numpy_median regions' g = Inr (out, g')" by simp
  from Inr raised_plot_linear [of fl ch numpy_mean numpy_median regions' g, symmetric] have
    n: "first_raised (loc_average_calls fl regions' 9 13 @ loc_average_calls fl regions' 18 22 @
                      loc_average_calls fl regions' 22 27) = None"
    by simp
  then have n1: "first_raised (loc_average_calls fl regions' 18 22) = None"
    and n2: "first_raised (loc_average_calls fl regions' 22 27) = None"
    by (auto simp: first_raised_None)
  note pl = plot_linear_Inr [OF l]
  have "first_raised (log_calls fl regions' (bs_pack1 out) 18 22 4 @
                      log_calls fl regions' (bs_pack2 out) 22 27 5) = None"
    using log_calls_after_linear [OF pl(3) pl(5) n1] log_calls_after_linear [OF pl(4) pl(6) n2]
    by (simp add: first_raised_append)
  then have "raised (plot_log fl regions' (bs_pack1 out) (bs_pack2 out)) = None"
    unfolding raised_plot_log .
  then obtain v where "plot_log fl regions' (bs_pack1 out) (bs_pack2 out) = Inr v"
    unfolding raised_None by blast
  with l n show ?thesis by (simp add: cohort_def)
qed

lemma raised_script:
  "raised (script fl ch numpy_mean numpy_median file_data g) = script_raises fl file_data"
proof -
  let ?calls = "\<lambda>c. loc_average_calls fl c 9 13 @ loc_average_calls fl c 18 22 @
                      loc_average_calls fl c 22 27"
  have three: "raised
      (case cohort fl ch numpy_mean numpy_median a g of
         Inl err \<Rightarrow> Inl err
       | Inr (out1, g1) \<Rightarrow>
      (case cohort fl ch numpy_mean numpy_median b g1 of
         Inl err \<Rightarrow> Inl err
       | Inr (out2, g2) \<Rightarrow>
      (case cohort fl ch numpy_mean numpy_median c g2 of
         Inl err \<Rightarrow> Inl err
       | Inr (out3, g3) \<Rightarrow> Inr ([out1, out2, out3], g3)))) =
      first_raised (concat (map ?calls [a, b, c]))" for a b c
  proof -
    define A where "A = ?calls a"
    define B where "B = ?calls b"
    define C where "C = ?calls c"
    have goal: "first_raised (concat (map ?calls [a, b, c])) = first_raised (A @ B @ C)"
      by (simp add: A_def B_def C_def)
    have ca: "first_raised A = raised (cohort fl ch numpy_mean numpy_median a g0)" for g0
      unfolding A_def by (rule raised_cohort [symmetric])
    have cb: "first_raised B = raised (cohort fl ch numpy_mean numpy_median b g0)" for g0
      unfolding B_def by (rule raised_cohort [symmetric])
    have cc: "first_raised C = raised (cohort fl ch numpy_mean numpy_median c g0)" for g0
      unfolding C_def by (rule raised_cohort [symmetric])
    show ?thesis
      unfolding goal
    proof (cases "cohort fl ch numpy_mean numpy_median a g")
      case (Inl e)
      with ca [of g] have "first_raised A = Some e" by simp
      with Inl show "raised
      (case cohort fl ch numpy_mean numpy_median a g of
         Inl err \<Rightarrow> Inl err
       | Inr (out1, g1) \<Rightarrow>
      (case cohort fl ch numpy_mean numpy_median b g1 of
         Inl err \<Rightarrow> Inl err
       | Inr (out2, g2) \<Rightarrow>
      (case cohort fl ch numpy_mean numpy_median c g2 of
         Inl err \<Rightarrow> Inl err
       | Inr (out3, g3) \<Rightarrow> Inr ([out1, out2, out3], g3)))) = first_raised (A @ B @ C)"
        by (simp add: first_raised_append)
    next
      case Ar: (Inr p)
      obtain out1 g1 where p: "p = (out1, g1)" by (cases p)
      from Ar ca [of g] have na: "first_raised A = None" by simp
      show "raised
      (case cohort fl ch numpy_mean numpy_median a g of
         Inl err \<Rightarrow> Inl err
       | Inr (out1, g1) \<Rightarrow>
      (case cohort fl ch numpy_mean numpy_median b g1 of
         Inl err \<Rightarrow> Inl err
       | Inr (out2, g2) \<Rightarrow>
      (case cohort fl ch numpy_mean numpy_median c g2 of
         Inl err \<Rightarrow> Inl err
       | Inr (out3, g3) \<Rightarrow> Inr ([out1, out2, out3], g3)))) = first_raised (A @ B @ C)"
      proof (cases "cohort fl ch numpy_mean numpy_median b g1")
        case (Inl e)
        with cb [of g1] have "first_raised B = Some e" by simp
        with Inl Ar p na show ?thesis by (simp add: first_raised_append)
      next
        case Br: (Inr q)
        obtain out2 g2 where q: "q = (out2, g2)" by (cases q)
        from Br cb [of g1] have nb: "first_raised B = None" by simp
        show ?thesis
        proof (cases "cohort fl ch numpy_mean numpy_median c g2")
          case (Inl e)
          with cc [of g2] have "first_raised C = Some e" by simp
          with Inl Ar p na Br q nb show ?thesis by (simp add: first_raised_append)
        next
          case Cr: (Inr t)
          obtain out3 g3 where t: "t = (out3, g3)" by (cases t)
          from Cr cc [of g2] have nc: "first_raised C = None" by simp
          with Ar p na Br q nb Cr t show ?thesis by (simp add: first_raised_append)
        qed
      qed
    qed
  qed
  show ?thesis
    unfolding script_def script_raises_def
    by (simp add: three split: sum.splits)
qed

text \<open>
  The mean of an empty list of location averages raises \<^verbatim>\<open>ZeroDivisionError\<close>, and
  \<^verbatim>\<open>plot_linear\<close> recovers from it: a table whose first column of population change is
  blank gives \<^verbatim>\<open>nan\<close> for that decade.
\<close>

theorem zero_division_recovered_counterexample:
  "py_mean [] = Inl ZeroDivisionError \<and>
   loc_average float_lit
     (replicate 10 [[''A'', '''', '''', '''', '''', '''', '''', '''', '''', '''', ''1'', ''2'', ''3'']])
     0 9 13 = Inr [[], [1], [2], [3]] \<and>
   region_means float_lit
     (replicate 10 [[''A'', '''', '''', '''', '''', '''', '''', '''', '''', '''', ''1'', ''2'', ''3'']])
     = Inr (replicate 10 [NaN, Val 1, Val 2, Val 3])"
  by code_simp

text \<open>
  Claim C5, amended. The script recovers at two places and nowhere else. In the first loop
  of \<^verbatim>\<open>plot_linear\<close> the \<^verbatim>\<open>ZeroDivisionError\<close> of the mean of an empty list of location
  averages is caught and the mean is \<^verbatim>\<open>nan\<close>; in its two other loops the warnings of the
  statistics of the bootstrapped arrays are dropped while their values are kept. Every
  other exception is raised on: \<^verbatim>\<open>plot_linear\<close> raises the first exception of its calls of
  \<^verbatim>\<open>loc_average\<close> in its three loops, \<^verbatim>\<open>plot_log\<close> raises the first exception of reading
  \<^verbatim>\<open>bs_pack1[m]\<close>, \<^verbatim>\<open>bs_pack2[m]\<close> and of its calls of \<^verbatim>\<open>loc_average\<close> in its two loops, and the
  script raises the first exception of reading the rows, of grouping them by region, of
  the two cohort filters and of the calls of \<^verbatim>\<open>loc_average\<close> for the three cohorts, whatever
  the library draws and whatever its statistics warn of.
\<close>

theorem recovery_points:
  "raised (plot_linear fl ch numpy_mean numpy_median regions' g) =
     first_raised (loc_average_calls fl regions' 9 13 @ loc_average_calls fl regions' 18 22 @
                   loc_average_calls fl regions' 22 27) \<and>
   raised (plot_log fl regions' rates_pack PD_pack) =
     first_raised (log_calls fl regions' rates_pack 18 22 4 @ log_calls fl regions' PD_pack 22 27 5) \<and>
   raised (script fl ch numpy_mean numpy_median file_data g) = script_raises fl file_data \<and>
   (region_means fl regions' = Inr rm \<longrightarrow>
      (\<forall>m<length region_unique.
         \<exists>pops. loc_average fl regions' (int m) 9 13 = Inr pops \<and>
                rm ! m = map (\<lambda>xs. if xs = [] then NaN else Val (mean xs)) pops)) \<and>
   (plot_linear fl ch numpy_mean numpy_median regions' g = Inr (out, g') \<longrightarrow>
      escaped out = [] \<and>
      summary out =
        map (\<lambda>bs. (map (\<lambda>b. fst (numpy_mean b)) bs, map (\<lambda>b. fst (numpy_median b)) bs))
          (bs_pack1 out @ bs_pack2 out))"
proof (intro conjI impI)
  show "raised (plot_linear fl ch numpy_mean numpy_median regions' g) =
     first_raised (loc_average_calls fl regions' 9 13 @ loc_average_calls fl regions' 18 22 @
                   loc_average_calls fl regions' 22 27)"
    by (rule raised_plot_linear)
  show "raised (plot_log fl regions' rates_pack PD_pack) =
     first_raised (log_calls fl regions' rates_pack 18 22 4 @ log_calls fl regions' PD_pack 22 27 5)"
    by (rule raised_plot_log)
  show "raised (script fl ch numpy_mean numpy_median file_data g) = script_raises fl file_data"
    by (rule raised_script)
next
  assume "region_means fl regions' = Inr rm"
  then show "\<forall>m<length region_unique.
         \<exists>pops. loc_average fl regions' (int m) 9 13 = Inr pops \<and>
                rm ! m = map (\<lambda>xs. if xs = [] then NaN else Val (mean xs)) pops"
    using region_means_values by blast
next
  assume a: "plot_linear fl ch numpy_mean numpy_median regions' g = Inr (out, g')"
  show "escaped out = []" by (rule plot_linear_Inr(1) [OF a])
  show "summary out =
        map (\<lambda>bs. (map (\<lambda>b. fst (numpy_mean b)) bs, map (\<lambda>b. fst (numpy_median b)) bs))
          (bs_pack1 out @ bs_pack2 out)"
    by (rule plot_linear_Inr(2) [OF a])
qed

theorem recovery_points_witness:
  "(\<exists>out. plot_linear float_lit cyclic_choice warning_mean warning_mean ex_regions (0::nat) =
            Inr (out, 0) \<and>
          means out = replicate 10 [Val 1, NaN, Val 3, Val 4] \<and>
          escaped out = [] \<and>
          summary out =
            replicate 10 (replicate 4 NaN, replicate 4 NaN) @
            replicate 10 (replicate 5 NaN, replicate 5 NaN)) \<and>
   (\<exists>pops. loc_average float_lit ex_regions 0 9 13 = Inr pops \<and>
           [Val 1, NaN, Val 3, Val 4] = map (\<lambda>xs. if xs = [] then NaN else Val (mean xs)) pops) \<and>
   raised (plot_linear float_lit cyclic_choice warning_mean warning_mean [[]] (0::nat)) =
     Some IndexError \<and>
   raised (plot_log float_lit ex_regions [] []) = Some IndexError \<and>
   raised (script float_lit cyclic_choice warning_mean warning_mean ''title'' (0::nat)) =
     Some IndexError"
proof -
  let ?out = "\<lparr>bs_pack1 = replicate 10 (replicate 4 []), bs_pack2 = replicate 10 (replicate 5 []),
               means = replicate 10 [Val 1, NaN, Val 3, Val 4],
               summary = replicate 10 (replicate 4 NaN, replicate 4 NaN) @
                         replicate 10 (replicate 5 NaN, replicate 5 NaN),
               escaped = []\<rparr>"
  have run: "plot_linear float_lit cyclic_choice warning_mean warning_mean ex_regions (0::nat) =
               Inr (?out, 0)"
    by code_simp
  have rm: "region_means float_lit ex_regions = Inr (replicate 10 [Val 1, NaN, Val 3, Val 4])"
    by code_simp
  note t = recovery_points [where fl = float_lit and ch = cyclic_choice
      and numpy_mean = warning_mean and numpy_median = warning_mean and g = "0::nat"
      and regions' = ex_regions and out = ?out and g' = "0::nat"
      and rm = "replicate 10 [Val 1, NaN, Val 3, Val 4]" and rates_pack = "[]" and PD_pack = "[]"
      and file_data = "''title''"]
  note u = recovery_points [where fl = float_lit and ch = cyclic_choice
      and numpy_mean = warning_mean and numpy_median = warning_mean and g = "0::nat"
      and regions' = "[[]]"]
  have "escaped (?out) = [] \<and>
        summary (?out) =
          map (\<lambda>bs. (map (\<lambda>b. fst (warning_mean b)) bs, map (\<lambda>b. fst (warning_mean b)) bs))
            (bs_pack1 (?out) @ bs_pack2 (?out))"
    by (rule mp [OF t [THEN conjunct2, THEN conjunct2, THEN conjunct2, THEN conjunct2]])
       (rule run)
  then have a: "\<exists>out. plot_linear float_lit cyclic_choice warning_mean warning_mean ex_regions (0::nat) =
            Inr (out, 0) \<and>
          means out = replicate 10 [Val 1, NaN, Val 3, Val 4] \<and>
          escaped out = [] \<and>
          summary out =
            replicate 10 (replicate 4 NaN, replicate 4 NaN) @
            replicate 10 (replicate 5 NaN, replicate 5 NaN)"
    using run by (intro exI [of _ ?out]) simp
  have "\<forall>m<length region_unique.
         \<exists>pops. loc_average float_lit ex_regions (int m) 9 13 = Inr pops \<and>
                replicate 10 [Val 1, NaN, Val 3, Val 4] ! m =
                  map (\<lambda>xs. if xs = [] then NaN else Val (mean xs)) pops"
    by (rule mp [OF t [THEN conjunct2, THEN conjunct2, THEN conjunct2, THEN conjunct1]])
       (rule rm)
  moreover have "(0::nat) < length region_unique" by (simp add: region_unique_def)
  ultimately have "\<exists>pops. loc_average float_lit ex_regions (int 0) 9 13 = Inr pops \<and>
                replicate 10 [Val 1, NaN, Val 3, Val 4] ! 0 =
                  map (\<lambda>xs. if xs = [] then NaN else Val (mean xs)) pops"
    by blast
  then have b: "\<exists>pops. loc_average float_lit ex_regions 0 9 13 = Inr pops \<and>
           [Val 1, NaN, Val 3, Val 4] = map (\<lambda>xs. if xs = [] then NaN else Val (mean xs)) pops"
    by simp
  have "first_raised (loc_average_calls float_lit [[]] 9 13 @ loc_average_calls float_lit [[]] 18 22 @
                      loc_average_calls float_lit [[]] 22 27) = Some IndexError"
    by code_simp
  with u [THEN conjunct1] have
    c: "raised (plot_linear float_lit cyclic_choice warning_mean warning_mean [[]] (0::nat)) =
          Some IndexError"
    by simp
  have "first_raised (log_calls float_lit ex_regions [] 18 22 4 @
                      log_calls float_lit ex_regions [] 22 27 5) = Some IndexError"
    by code_simp
  with t [THEN conjunct2, THEN conjunct1] have
    d: "raised (plot_log float_lit ex_regions [] []) = Some IndexError"
    by simp
  have "script_raises float_lit ''title'' = Some IndexError" by code_simp
  with t [THEN conjunct2, THEN conjunct2, THEN conjunct1] have
    e: "raised (script float_lit cyclic_choice warning_mean warning_mean ''title'' (0::nat)) =
          Some IndexError"
    by simp
  from a b c d e show ?thesis by blast
qed

section \<open>The store is only extended\<close>

lemma frame_refl: "n \<le> length h \<Longrightarrow> frame n h h"
  by (simp add: frame_def)

lemma frame_trans: "frame n h h' \<Longrightarrow> frame n h' h'' \<Longrightarrow> frame n h h''"
  by (simp add: frame_def)

lemma frame_length: "frame n h h' \<Longrightarrow> n \<le> length h'"
  by (simp add: frame_def)

lemma frame_alloc: "n \<le> length h \<Longrightarrow> frame n h (snd (alloc ob h))"
  by (simp add: frame_def alloc_def)

lemma frame_list_append: "n \<le> a \<Longrightarrow> n \<le> length h \<Longrightarrow> frame n h (list_append a v h)"
  by (simp add: frame_def list_append_def)

lemma frame_unique_loop:
  "n \<le> u \<Longrightarrow> n \<le> length h \<Longrightarrow> frame n h (unique_loop u xs h)"
proof (induction xs arbitrary: h)
  case Nil
  then show ?case by (simp add: frame_refl)
next
  case (Cons x xs)
  let ?h = "if count_list (items h u) (Str x) = 0 then list_append u (Str x) h else h"
  have 1: "frame n h ?h" using Cons.prems by (simp add: frame_refl frame_list_append)
  then have "n \<le> length ?h" by (rule frame_length)
  from Cons.IH [OF Cons.prems(1) this] have "frame n ?h (unique_loop u xs ?h)" .
  with 1 show ?case unfolding unique_loop.simps by (rule frame_trans)
qed

lemma frame_index_loop:
  "n \<le> li \<Longrightarrow> n \<le> length h \<Longrightarrow> frame n h (index_loop li loc_name name rest h)"
proof (induction rest arbitrary: h)
  case Nil
  then show ?case by (simp add: frame_refl)
next
  case (Cons i rest)
  let ?h = "if loc_name ! i = name then list_append li (Idx i) h else h"
  have 1: "frame n h ?h" using Cons.prems by (simp add: frame_refl frame_list_append)
  then have "n \<le> length ?h" by (rule frame_length)
  from Cons.IH [OF Cons.prems(1) this] have "frame n ?h (index_loop li loc_name name rest ?h)" .
  with 1 show ?case unfolding index_loop.simps by (rule frame_trans)
qed

lemma frame_append_means:
  "\<forall>l\<in>set ls. n \<le> l \<Longrightarrow> n \<le> length h \<Longrightarrow> frame n h (append_means k accs ls h)"
proof (induction k accs ls h rule: append_means.induct)
  case (1 k sum_loc sub_loc accs l ls h)
  let ?h = "if int k - int sub_loc > 0
        then list_append l (Flt (sum_loc / real_of_int (int k - int sub_loc))) h
        else h"
  have a: "frame n h ?h" using "1.prems" by (simp add: frame_refl frame_list_append)
  then have "n \<le> length ?h" by (rule frame_length)
  with "1.IH" "1.prems" have "frame n ?h (append_means k accs ls ?h)" by simp
  with a show ?case unfolding append_means.simps by (rule frame_trans)
qed (simp_all add: frame_refl)

lemma alloc_lists_frame:
  "n \<le> length h \<Longrightarrow> frame n h (snd (alloc_lists k h)) \<and> (\<forall>l\<in>set (fst (alloc_lists k h)). n \<le> l)"
proof (induction k arbitrary: h)
  case 0
  then show ?case by (simp add: frame_refl)
next
  case (Suc k)
  let ?h1 = "snd (alloc (PyList []) h)"
  have 1: "frame n h ?h1" using Suc.prems by (rule frame_alloc)
  then have "n \<le> length ?h1" by (rule frame_length)
  from Suc.IH [OF this] have 2: "frame n ?h1 (snd (alloc_lists k ?h1))"
    and 3: "\<forall>l\<in>set (fst (alloc_lists k ?h1)). n \<le> l" by simp_all
  from 1 2 have 4: "frame n h (snd (alloc_lists k ?h1))" by (rule frame_trans)
  have s: "snd (alloc_lists (Suc k) h) = snd (alloc_lists k ?h1)"
    and f: "fst (alloc_lists (Suc k) h) = fst (alloc (PyList []) h) # fst (alloc_lists k ?h1)"
    by (simp_all add: split_def Let_def)
  have "n \<le> fst (alloc (PyList []) h)" using Suc.prems by (simp add: alloc_def)
  with 3 4 show ?case unfolding s f by simp
qed

lemma frame_copy_lists:
  "n \<le> length h \<Longrightarrow> frame n h (snd (copy_lists ls h))"
proof (induction ls arbitrary: h)
  case Nil
  then show ?case by (simp add: frame_refl)
next
  case (Cons l ls)
  let ?h1 = "snd (alloc (PyList (items h l)) h)"
  have 1: "frame n h ?h1" using Cons.prems by (rule frame_alloc)
  then have "n \<le> length ?h1" by (rule frame_length)
  from Cons.IH [OF this] have "frame n ?h1 (snd (copy_lists ls ?h1))" .
  with 1 have "frame n h (snd (copy_lists ls ?h1))" by (rule frame_trans)
  moreover have "snd (copy_lists (l # ls) h) = snd (copy_lists ls ?h1)"
    by (simp add: split_def Let_def)
  ultimately show ?case by simp
qed

lemma frame_locations_h:
  "\<forall>l\<in>set ls. n \<le> l \<Longrightarrow> n \<le> length h \<Longrightarrow>
   frame n h (snd (locations_h fl loc_name data u ls js h))"
proof (induction js arbitrary: h)
  case Nil
  then show ?case by (simp add: frame_refl)
next
  case (Cons j js)
  let ?h1 = "snd (alloc (PyList []) h)"
  let ?li = "length h"
  let ?h2 = "index_loop ?li loc_name (str_of (items ?h1 u ! j)) [0..<length loc_name] ?h1"
  let ?idx = "map int_of (items ?h2 ?li)"
  have 1: "frame n h ?h1" using Cons.prems(2) by (rule frame_alloc)
  then have n1: "n \<le> length ?h1" by (rule frame_length)
  have "frame n ?h1 ?h2" using Cons.prems(2) n1 by (intro frame_index_loop) simp_all
  with 1 have 2: "frame n h ?h2" by (rule frame_trans)
  then have n2: "n \<le> length ?h2" by (rule frame_length)
  show ?case
  proof (cases "sum_studies fl data ?idx (replicate (length data) (0, 0))")
    case (Inl err)
    with 2 show ?thesis by (simp add: alloc_def Let_def)
  next
    case (Inr accs)
    let ?h3 = "append_means (length ?idx) accs ls ?h2"
    have "frame n ?h2 ?h3" using Cons.prems(1) n2 by (rule frame_append_means)
    with 2 have 3: "frame n h ?h3" by (rule frame_trans)
    then have "n \<le> length ?h3" by (rule frame_length)
    from Cons.IH [OF Cons.prems(1) this] 3
    have "frame n h (snd (locations_h fl loc_name data u ls js ?h3))" by (rule frame_trans [rotated])
    with Inr show ?thesis by (simp add: alloc_def Let_def)
  qed
qed

lemma frame_average_lists:
  "frame (length h) h (snd (average_lists fl loc_name data h))"
proof -
  let ?n = "length h"
  obtain u h1 where a1: "alloc (PyList []) h = (u, h1)" by fastforce
  define h2 where "h2 = unique_loop u loc_name h1"
  obtain ls h3 where a3: "alloc_lists (length data) h2 = (ls, h3)" by fastforce
  obtain res h4 where
    r: "locations_h fl loc_name data u ls [0..<length (items h3 u)] h3 = (res, h4)"
    by fastforce
  obtain cs h5 where c: "copy_lists ls h4 = (cs, h5)" by fastforce
  have eq: "average_lists fl loc_name data h =
              (case res of Some err \<Rightarrow> (Inl err, h4) | None \<Rightarrow> (Inr cs, h5))"
    unfolding average_lists_def a1 Let_def prod.case h2_def [symmetric] a3 r c ..
  from a1 have u: "u = length h" and h1: "h1 = snd (alloc (PyList []) h)"
    by (simp_all add: alloc_def)
  have 1: "frame ?n h h1" unfolding h1 by (simp add: frame_alloc)
  then have "?n \<le> length h1" by (rule frame_length)
  then have "frame ?n h1 h2" unfolding h2_def by (intro frame_unique_loop) (simp_all add: u)
  with 1 have 2: "frame ?n h h2" by (rule frame_trans)
  then have "?n \<le> length h2" by (rule frame_length)
  from alloc_lists_frame [OF this, of "length data"]
  have a: "frame ?n h2 h3" and ls: "\<forall>l\<in>set ls. ?n \<le> l" by (simp_all add: a3)
  from 2 a have 3: "frame ?n h h3" by (rule frame_trans)
  then have "?n \<le> length h3" by (rule frame_length)
  from frame_locations_h [OF ls this, of fl loc_name data u "[0..<length (items h3 u)]"]
  have "frame ?n h3 h4" by (simp add: r)
  with 3 have 4: "frame ?n h h4" by (rule frame_trans)
  then have "?n \<le> length h4" by (rule frame_length)
  from frame_copy_lists [OF this, of ls] have "frame ?n h4 h5" by (simp add: c)
  with 4 have 5: "frame ?n h h5" by (rule frame_trans)
  from 4 5 show ?thesis unfolding eq by (cases res) simp_all
qed

lemma frame_loc_average_h:
  "frame (length h) h (snd (loc_average_h fl regions_ref m s e h))"
  unfolding loc_average_h_def
  by (simp add: Let_def frame_refl frame_average_lists split: sum.splits)

lemma frame_resample_h:
  "n \<le> length h \<Longrightarrow> frame n h (snd (snd (resample_h ch bs_iter k data_ref g h)))"
  by (simp add: resample_h_def frame_def alloc_def split_def Let_def)

lemma frame_resample_step:
  assumes "frame n h0 h"
  shows "frame n h0 (snd (snd (resample_h ch bs_iter k data_ref g h)))"
proof -
  from assms have "n \<le> length h" by (rule frame_length)
  then have "frame n h (snd (snd (resample_h ch bs_iter k data_ref g h)))"
    by (rule frame_resample_h)
  with assms show ?thesis by (rule frame_trans)
qed

lemma frame_bstrap_h:
  "frame (length h) h (snd (bstrap_h ch bs_iter data g h))"
proof (induction ch bs_iter data g h rule: bstrap_h.induct)
  case (1 ch bs_iter data70 data80 data90 data00 g h)
  have 0: "frame (length h) h h" by (simp add: frame_refl)
  show ?case
    unfolding bstrap_h.simps Let_def split_def snd_conv
    by (intro frame_resample_step 0)
next
  case (2 ch bs_iter data70 data80 data90 data00 data10 g h)
  have 0: "frame (length h) h h" by (simp add: frame_refl)
  show ?case
    unfolding bstrap_h.simps Let_def split_def snd_conv
    by (intro frame_resample_step 0)
qed (simp_all add: frame_refl)

section \<open>The functions on the store compute what the functions on values compute\<close>

lemma frame_nth: "frame n h h' \<Longrightarrow> a < n \<Longrightarrow> h' ! a = h ! a"
  unfolding frame_def by (metis nth_take)

lemma items_cong: "h' ! a = h ! a \<Longrightarrow> items h' a = items h a"
  by (simp add: items_def)

lemma items_alloc_old: "a < length h \<Longrightarrow> items (h @ [ob]) a = items h a"
  by (simp add: items_def nth_append)

lemma items_alloc_new: "items (h @ [PyList vs]) (length h) = vs"
  by (simp add: items_def)

lemma length_list_append: "length (list_append a v h) = length h"
  by (simp add: list_append_def)

lemma nth_list_append_other: "b \<noteq> a \<Longrightarrow> list_append a v h ! b = h ! b"
  by (simp add: list_append_def)

lemma items_list_append_same: "a < length h \<Longrightarrow> items (list_append a v h) a = items h a @ [v]"
  by (simp add: list_append_def items_def)

lemma count_list_Str: "count_list (map Str acc) (Str x) = count_list acc x"
  by (induction acc) simp_all

lemma unique_loop_items:
  assumes "u < length h" "items h u = map Str acc"
  shows "items (unique_loop u xs h) u = map Str (loc_name_unique acc xs) \<and>
         length (unique_loop u xs h) = length h \<and>
         (\<forall>b. b \<noteq> u \<longrightarrow> unique_loop u xs h ! b = h ! b)"
  using assms
proof (induction xs arbitrary: h acc)
  case Nil
  then show ?case by simp
next
  case (Cons x xs)
  let ?acc = "if count_list acc x = 0 then acc @ [x] else acc"
  let ?h = "if count_list (items h u) (Str x) = 0 then list_append u (Str x) h else h"
  have l: "u < length ?h" using Cons.prems(1) by (simp add: length_list_append)
  have i: "items ?h u = map Str ?acc"
    using Cons.prems by (simp add: count_list_Str items_list_append_same)
  have o: "\<forall>b. b \<noteq> u \<longrightarrow> ?h ! b = h ! b" by (simp add: nth_list_append_other)
  have n: "length ?h = length h" by (simp add: length_list_append)
  from Cons.IH [OF l i] o n show ?case by simp
qed

lemma index_loop_items:
  assumes "li < length h" "items h li = map Idx acc"
  shows "items (index_loop li loc_name name rest h) li =
           map Idx (acc @ filter (\<lambda>i. loc_name ! i = name) rest) \<and>
         length (index_loop li loc_name name rest h) = length h \<and>
         (\<forall>b. b \<noteq> li \<longrightarrow> index_loop li loc_name name rest h ! b = h ! b)"
  using assms
proof (induction rest arbitrary: h acc)
  case Nil
  then show ?case by simp
next
  case (Cons i rest)
  let ?acc = "if loc_name ! i = name then acc @ [i] else acc"
  let ?h = "if loc_name ! i = name then list_append li (Idx i) h else h"
  have l: "li < length ?h" using Cons.prems(1) by (simp add: length_list_append)
  have it: "items ?h li = map Idx ?acc"
    using Cons.prems by (simp add: items_list_append_same)
  have o: "\<forall>b. b \<noteq> li \<longrightarrow> ?h ! b = h ! b" by (simp add: nth_list_append_other)
  have n: "length ?h = length h" by (simp add: length_list_append)
  from Cons.IH [OF l it] o n show ?case by simp
qed

lemma floats_at_cong: "h' ! a = h ! a \<Longrightarrow> floats_at h' a = floats_at h a"
  by (simp add: floats_at_def items_def)

lemma floats_at_list_append:
  "a < length h \<Longrightarrow> floats_at (list_append a (Flt x) h) a = floats_at h a @ [x]"
  by (simp add: floats_at_def items_list_append_same flt_of_def)

lemma append_means_floats:
  assumes "distinct ls" "\<forall>l\<in>set ls. l < length h" "length accs = length ls"
  shows "length (append_means n accs ls h) = length h \<and>
         (\<forall>b. b \<notin> set ls \<longrightarrow> append_means n accs ls h ! b = h ! b) \<and>
         map (floats_at (append_means n accs ls h)) ls =
           map2 (append_mean n) accs (map (floats_at h) ls)"
  using assms
proof (induction n accs ls h rule: append_means.induct)
  case (1 n sum_loc sub_loc accs l ls h)
  define h' where "h' = (if int n - int sub_loc > 0
        then list_append l (Flt (sum_loc / real_of_int (int n - int sub_loc))) h
        else h)"
  define r where "r = append_means n accs ls h'"
  have step: "append_means n ((sum_loc, sub_loc) # accs) (l # ls) h = r"
    by (simp add: r_def h'_def)
  have lh: "length h' = length h" by (simp add: h'_def length_list_append)
  from "1.prems" have d: "distinct ls" and nl: "l \<notin> set ls" and lt: "l < length h"
    and b: "\<forall>l\<in>set ls. l < length h'" and len: "length accs = length ls"
    by (simp_all add: lh)
  from "1.IH" [OF d b [unfolded h'_def] len]
  have n': "length r = length h'"
    and o': "\<forall>b. b \<notin> set ls \<longrightarrow> r ! b = h' ! b"
    and m': "map (floats_at r) ls = map2 (append_mean n) accs (map (floats_at h') ls)"
    unfolding r_def h'_def by blast+
  have oh: "\<And>x. x \<noteq> l \<Longrightarrow> h' ! x = h ! x"
    by (simp add: h'_def nth_list_append_other)
  have same: "map (floats_at h') ls = map (floats_at h) ls"
  proof (rule map_cong [OF refl])
    fix x assume "x \<in> set ls"
    with nl have "x \<noteq> l" by auto
    then show "floats_at h' x = floats_at h x"
      by (intro floats_at_cong oh)
  qed
  have hd: "floats_at r l = append_mean n (sum_loc, sub_loc) (floats_at h l)"
  proof -
    from o' nl have "floats_at r l = floats_at h' l"
      by (intro floats_at_cong) simp
    also have "\<dots> = append_mean n (sum_loc, sub_loc) (floats_at h l)"
      using lt by (simp add: h'_def floats_at_list_append)
    finally show ?thesis .
  qed
  have oth: "\<forall>b. b \<notin> set (l # ls) \<longrightarrow> r ! b = h ! b"
    using o' oh by simp
  have "map (floats_at r) (l # ls) =
          map2 (append_mean n) ((sum_loc, sub_loc) # accs) (map (floats_at h) (l # ls))"
    using hd m' same by simp
  with n' lh oth show ?case unfolding step by simp
qed simp_all

lemma int_of_Idx: "map int_of (map Idx xs) = xs"
  by (induction xs) (simp_all add: int_of_def)

lemma locations_h_refines:
  assumes "u < length h" "u \<notin> set ls" "distinct ls" "\<forall>l\<in>set ls. l < length h"
    and "length ls = length data" "items h u = map Str names" "\<forall>j\<in>set js. j < length names"
  shows "(case locations fl loc_name data (map (\<lambda>j. names ! j) js) (map (floats_at h) ls) of
            Inl err \<Rightarrow> fst (locations_h fl loc_name data u ls js h) = Some err
          | Inr out \<Rightarrow>
              fst (locations_h fl loc_name data u ls js h) = None \<and>
              map (floats_at (snd (locations_h fl loc_name data u ls js h))) ls = out)"
  using assms(1,4,6,7)
proof (induction js arbitrary: h)
  case Nil
  then show ?case by simp
next
  case (Cons j js)
  define h1 where "h1 = h @ [PyList []]"
  define li where "li = length h"
  define name where "name = names ! j"
  define h2 where "h2 = index_loop li loc_name name [0..<length loc_name] h1"
  define idx where "idx = loc_index loc_name name"
  have a: "alloc (PyList []) h = (li, h1)" by (simp add: alloc_def li_def h1_def)
  have u1: "items h1 u = map Str names"
    using Cons.prems(1,3) by (simp add: h1_def items_alloc_old)
  have j: "j < length names" using Cons.prems(4) by simp
  then have nm: "str_of (items h1 u ! j) = name"
    by (simp add: u1 name_def str_of_def)
  have li1: "li < length h1" by (simp add: li_def h1_def)
  have e1: "items h1 li = map Idx []" by (simp add: li_def h1_def items_alloc_new)
  from index_loop_items [OF li1 e1, of loc_name name "[0..<length loc_name]"]
  have i2: "items h2 li = map Idx idx" and l2: "length h2 = length h1"
    and o2: "\<forall>b. b \<noteq> li \<longrightarrow> h2 ! b = h1 ! b"
    by (simp_all add: h2_def idx_def loc_index_def)
  have ix: "map int_of (items h2 li) = idx" unfolding i2 by (rule int_of_Idx)
  have old2: "\<And>b. b < length h \<Longrightarrow> h2 ! b = h ! b"
    using o2 by (simp add: li_def h1_def nth_append)
  have f2: "map (floats_at h2) ls = map (floats_at h) ls"
    using Cons.prems(2) by (intro map_cong [OF refl] floats_at_cong old2) simp
  have step: "locations_h fl loc_name data u ls (j # js) h =
      (case sum_studies fl data idx (replicate (length data) (0, 0)) of
         Inl err \<Rightarrow> (Some err, h2)
       | Inr accs \<Rightarrow> locations_h fl loc_name data u ls js (append_means (length idx) accs ls h2))"
    by (simp only: locations_h.simps a prod.case Let_def nm h2_def [symmetric] ix)
  show ?case
  proof (cases "sum_studies fl data idx (replicate (length data) (0, 0))")
    case (Inl err)
    then show ?thesis
      unfolding step by (simp add: name_def idx_def)
  next
    case (Inr accs)
    define h3 where "h3 = append_means (length idx) accs ls h2"
    from sum_studies_length [OF Inr] have la: "length accs = length ls"
      using assms(5) by simp
    have b2: "\<forall>l\<in>set ls. l < length h2"
      using Cons.prems(2) by (auto simp: l2 h1_def)
    from append_means_floats [OF assms(3) b2 la, of "length idx"]
    have l3: "length h3 = length h2" and o3: "\<forall>b. b \<notin> set ls \<longrightarrow> h3 ! b = h2 ! b"
      and f3: "map (floats_at h3) ls = map2 (append_mean (length idx)) accs (map (floats_at h2) ls)"
      by (simp_all add: h3_def)
    have u3: "u < length h3" using Cons.prems(1) by (simp add: l3 l2 h1_def)
    have b3: "\<forall>l\<in>set ls. l < length h3" using b2 by (simp add: l3)
    have "h3 ! u = h ! u" using o3 assms(2) old2 Cons.prems(1) by simp
    then have i3: "items h3 u = map Str names"
      using Cons.prems(3) by (simp add: items_def)
    have js: "\<forall>j\<in>set js. j < length names" using Cons.prems(4) by simp
    note IH = Cons.IH [OF u3 b3 i3 js]
    have pure: "locations fl loc_name data (map (\<lambda>j. names ! j) (j # js)) (map (floats_at h) ls) =
                locations fl loc_name data (map (\<lambda>j. names ! j) js) (map (floats_at h3) ls)"
      using Inr by (simp add: name_def [symmetric] idx_def [symmetric] f3 f2)
    have store: "locations_h fl loc_name data u ls (j # js) h =
                 locations_h fl loc_name data u ls js h3"
      unfolding step Inr h3_def by simp
    show ?thesis unfolding pure store by (rule IH)
  qed
qed

lemma alloc_lists_eq:
  "alloc_lists k h = ([length h..<length h + k], h @ replicate k (PyList []))"
proof (induction k arbitrary: h)
  case 0
  then show ?case by simp
next
  case (Suc k)
  have "[length h..<length h + Suc k] = length h # [Suc (length h)..<Suc (length h) + k]"
    by (simp add: upt_conv_Cons)
  moreover have "h @ replicate (Suc k) (PyList []) = (h @ [PyList []]) @ replicate k (PyList [])"
    by simp
  ultimately show ?case
    unfolding alloc_lists.simps by (simp add: alloc_def Suc.IH)
qed

lemma copy_lists_refines:
  assumes "\<forall>l\<in>set ls. l < length h"
  shows "map (floats_at (snd (copy_lists ls h))) (fst (copy_lists ls h)) = map (floats_at h) ls"
  using assms
proof (induction ls arbitrary: h)
  case Nil
  then show ?case by simp
next
  case (Cons l ls)
  define h1 where "h1 = h @ [PyList (items h l)]"
  define c where "c = length h"
  have a: "alloc (PyList (items h l)) h = (c, h1)" by (simp add: alloc_def c_def h1_def)
  obtain cs h2 where r: "copy_lists ls h1 = (cs, h2)" by fastforce
  have step: "copy_lists (l # ls) h = (c # cs, h2)"
    by (simp add: a r)
  have b1: "\<forall>l\<in>set ls. l < length h1" using Cons.prems by (auto simp: h1_def)
  from Cons.IH [OF b1] have IH: "map (floats_at h2) cs = map (floats_at h1) ls"
    by (simp add: r)
  have "frame (length h1) h1 h2"
    using frame_copy_lists [of "length h1" h1 ls] by (simp add: r)
  then have "h2 ! c = h1 ! c" by (rule frame_nth) (simp add: c_def h1_def)
  then have "floats_at h2 c = floats_at h1 c" by (rule floats_at_cong)
  also have "\<dots> = floats_at h l"
    by (simp add: floats_at_def c_def h1_def items_alloc_new)
  finally have hd: "floats_at h2 c = floats_at h l" .
  have "map (floats_at h1) ls = map (floats_at h) ls"
    using Cons.prems
    by (intro map_cong [OF refl] floats_at_cong) (simp add: h1_def nth_append)
  with IH hd show ?case unfolding step by simp
qed

lemma average_lists_refines:
  "(case locations fl loc_name data (loc_name_unique [] loc_name) (replicate (length data) []) of
      Inl err \<Rightarrow> fst (average_lists fl loc_name data h) = Inl err
    | Inr out \<Rightarrow>
        (\<exists>cs. fst (average_lists fl loc_name data h) = Inr cs \<and>
              map (floats_at (snd (average_lists fl loc_name data h))) cs = out))"
proof -
  define u where "u = length h"
  define h1 where "h1 = h @ [PyList []]"
  define h2 where "h2 = unique_loop u loc_name h1"
  define names where "names = loc_name_unique [] loc_name"
  define ls where "ls = [length h2..<length h2 + length data]"
  define h3 where "h3 = h2 @ replicate (length data) (PyList [])"
  obtain res h4 where
    r: "locations_h fl loc_name data u ls [0..<length (items h3 u)] h3 = (res, h4)"
    by fastforce
  obtain cs h5 where c: "copy_lists ls h4 = (cs, h5)" by fastforce
  have a1: "alloc (PyList []) h = (u, h1)" by (simp add: alloc_def u_def h1_def)
  have a3: "alloc_lists (length data) h2 = (ls, h3)"
    by (simp add: alloc_lists_eq ls_def h3_def)
  have eq: "average_lists fl loc_name data h =
              (case res of Some err \<Rightarrow> (Inl err, h4) | None \<Rightarrow> (Inr cs, h5))"
    unfolding average_lists_def a1 Let_def prod.case h2_def [symmetric] a3 r c ..
  have u1: "u < length h1" by (simp add: u_def h1_def)
  have e1: "items h1 u = map Str []" by (simp add: u_def h1_def items_alloc_new)
  from unique_loop_items [OF u1 e1, of loc_name]
  have i2: "items h2 u = map Str names" and l2: "length h2 = length h1"
    by (simp_all add: h2_def names_def)
  have u3: "u < length h3" using u1 by (simp add: h3_def l2)
  have uls: "u \<notin> set ls" using u1 by (simp add: ls_def l2)
  have d: "distinct ls" by (simp add: ls_def)
  have b: "\<forall>l\<in>set ls. l < length h3" by (simp add: ls_def h3_def)
  have len: "length ls = length data" by (simp add: ls_def)
  have i3: "items h3 u = map Str names"
    using u1 by (simp add: h3_def items_def nth_append l2 i2 [unfolded items_def])
  have js: "\<forall>j\<in>set [0..<length (items h3 u)]. j < length names" by (simp add: i3)
  have nm: "map (\<lambda>j. names ! j) [0..<length (items h3 u)] = names"
    by (simp add: i3 map_nth)
  have empty: "map (floats_at h3) ls = replicate (length data) []"
  proof (rule nth_equalityI)
    show "length (map (floats_at h3) ls) = length (replicate (length data) [])"
      by (simp add: len)
  next
    fix k assume "k < length (map (floats_at h3) ls)"
    then have k: "k < length data" by (simp add: len)
    then have "ls ! k = length h2 + k" by (simp add: ls_def)
    then have "h3 ! (ls ! k) = PyList []" using k by (simp add: h3_def nth_append)
    then have "floats_at h3 (ls ! k) = []" by (simp add: floats_at_def items_def)
    with k show "map (floats_at h3) ls ! k = replicate (length data) [] ! k"
      by (simp add: len)
  qed
  note R = locations_h_refines [OF u3 uls d b len i3 js, of fl loc_name,
      unfolded nm empty r fst_conv snd_conv]
  show ?thesis
  proof (cases "locations fl loc_name data names (replicate (length data) [])")
    case (Inl err)
    with R have "res = Some err" by simp
    with Inl show ?thesis unfolding eq names_def [symmetric] by simp
  next
    case (Inr out)
    with R have res: "res = None" and out: "map (floats_at h4) ls = out" by simp_all
    have "length h3 \<le> length h4"
      using frame_locations_h [of ls 0 h3 fl loc_name data u "[0..<length (items h3 u)]"]
      by (simp add: r frame_def)
    with b have b4: "\<forall>l\<in>set ls. l < length h4" by auto
    from copy_lists_refines [OF b4] have "map (floats_at h5) cs = map (floats_at h4) ls"
      by (simp add: c)
    with out res Inr show ?thesis unfolding eq names_def [symmetric] by simp
  qed
qed

lemma getitem_map:
  "getitem (map f xs) i = (case getitem xs i of Inl err \<Rightarrow> Inl err | Inr x \<Rightarrow> Inr (f x))"
  by (simp add: getitem_def Let_def)

lemma loc_average_h_refines:
  "(case loc_average fl (regions_at h regions_ref) m s e of
      Inl err \<Rightarrow> fst (loc_average_h fl regions_ref m s e h) = Inl err
    | Inr out \<Rightarrow>
        (\<exists>cs. fst (loc_average_h fl regions_ref m s e h) = Inr cs \<and>
              map (floats_at (snd (loc_average_h fl regions_ref m s e h))) cs = out))"
proof (cases "getitem (items h regions_ref) m")
  case (Inl err)
  then show ?thesis
    by (simp add: loc_average_def loc_average_h_def regions_at_def getitem_map)
next
  case r: (Inr r)
  show ?thesis
  proof (cases "getitem (zip_star (rows_at h (ref_of r))) 0")
    case (Inl err)
    with r show ?thesis
      by (simp add: loc_average_def loc_average_h_def regions_at_def getitem_map)
  next
    case n: (Inr loc_name)
    define data where "data = slice (zip_star (rows_at h (ref_of r))) s e"
    show ?thesis
    proof (cases "(e - s = 4 \<or> e - s = 5) \<and> int (length data) = e - s")
      case False
      with r n show ?thesis
        by (auto simp: loc_average_def loc_average_h_def regions_at_def getitem_map Let_def
                       data_def)
    next
      case True
      then have p: "loc_average fl (regions_at h regions_ref) m s e =
                      locations fl loc_name data (loc_name_unique [] loc_name)
                        (replicate (length data) [])"
        using r n by (auto simp: loc_average_def regions_at_def getitem_map Let_def data_def)
      from True have q: "loc_average_h fl regions_ref m s e h = average_lists fl loc_name data h"
        using r n by (auto simp: loc_average_h_def Let_def data_def)
      show ?thesis unfolding p q by (rule average_lists_refines)
    qed
  qed
qed

lemma resample_h_refines:
  "(case resample_h ch bs_iter k a g h of
      (bs, g', h') \<Rightarrow> (array_at h' bs, g') = resample ch bs_iter k (floats_at h a) g \<and>
                      bs < length h')"
  by (simp add: resample_h_def resample_def alloc_def Let_def split_def array_at_def
                matrix_at_def items_def floats_at_def nth_append comp_def flt_of_def)

lemma resample_h_appends: "\<exists>new. snd (snd (resample_h ch bs_iter k a g h)) = h @ new"
  by (simp add: resample_h_def alloc_def Let_def split_def)

lemma floats_at_append: "a < length h \<Longrightarrow> floats_at (h @ new) a = floats_at h a"
  by (simp add: floats_at_def items_def nth_append)

lemma array_at_append: "b < length h \<Longrightarrow> array_at (h @ new) b = array_at h b"
  by (simp add: array_at_def nth_append)

lemma resample_h_step:
  assumes "h = h0 @ old" "a < length h0"
  shows "\<exists>bs g' h' new. resample_h ch bs_iter k a g h = (bs, g', h') \<and>
           resample ch bs_iter k (floats_at h0 a) g = (array_at h' bs, g') \<and>
           bs < length h' \<and> h' = h @ new"
proof -
  obtain bs g' h' where s: "resample_h ch bs_iter k a g h = (bs, g', h')"
    by (cases "resample_h ch bs_iter k a g h") auto
  from resample_h_refines [where ch = ch and bs_iter = bs_iter and k = k and a = a and g = g
      and h = h]
  have "(array_at h' bs, g') = resample ch bs_iter k (floats_at h a) g" and "bs < length h'"
    by (simp_all add: s)
  moreover have "floats_at h a = floats_at h0 a"
    unfolding assms(1) using assms(2) by (rule floats_at_append)
  moreover from resample_h_appends [of ch bs_iter k a g h] obtain new where "h' = h @ new"
    by (auto simp: s)
  ultimately show ?thesis using s by auto
qed

lemma bstrap_h_rate:
  assumes "\<forall>a\<in>set [d1, d2, d3, d4]. a < length h"
  shows "\<exists>bs g' h'. bstrap_h ch bs_iter [d1, d2, d3, d4] g h = (Inr (bs, g'), h') \<and>
           bstrap ch bs_iter (map (floats_at h) [d1, d2, d3, d4]) g = Inr (map (array_at h') bs, g')"
proof -
  from assms have v: "d1 < length h" "d2 < length h" "d3 < length h" "d4 < length h" by simp_all
  from resample_h_step [of h h "[]" d1 ch bs_iter 1 g] v(1) obtain b1 g1 h1 n1 where
    s1: "resample_h ch bs_iter 1 d1 g h = (b1, g1, h1)" and
    r1: "resample ch bs_iter 1 (floats_at h d1) g = (array_at h1 b1, g1)" and
    l1: "b1 < length h1" and a1: "h1 = h @ n1" by auto
  from resample_h_step [OF a1 v(2), of ch bs_iter 1 g1] obtain b2 g2 h2 n2 where
    s2: "resample_h ch bs_iter 1 d2 g1 h1 = (b2, g2, h2)" and
    r2: "resample ch bs_iter 1 (floats_at h d2) g1 = (array_at h2 b2, g2)" and
    l2: "b2 < length h2" and a2: "h2 = h1 @ n2" by auto
  have a2': "h2 = h @ (n1 @ n2)" by (simp add: a1 a2)
  from resample_h_step [OF a2' v(3), of ch bs_iter 1 g2] obtain b3 g3 h3 n3 where
    s3: "resample_h ch bs_iter 1 d3 g2 h2 = (b3, g3, h3)" and
    r3: "resample ch bs_iter 1 (floats_at h d3) g2 = (array_at h3 b3, g3)" and
    l3: "b3 < length h3" and a3: "h3 = h2 @ n3" by auto
  have a3': "h3 = h @ (n1 @ n2 @ n3)" by (simp add: a2' a3)
  from resample_h_step [OF a3' v(4), of ch bs_iter 1 g3] obtain b4 g4 h4 n4 where
    s4: "resample_h ch bs_iter 1 d4 g3 h3 = (b4, g4, h4)" and
    r4: "resample ch bs_iter 1 (floats_at h d4) g3 = (array_at h4 b4, g4)" and
    l4: "b4 < length h4" and a4: "h4 = h3 @ n4" by auto
  have k1: "array_at h4 b1 = array_at h1 b1"
    using array_at_append [OF l1, of "n2 @ n3 @ n4"] by (simp add: a4 a3 a2)
  have k2: "array_at h4 b2 = array_at h2 b2"
    using array_at_append [OF l2, of "n3 @ n4"] by (simp add: a4 a3)
  have k3: "array_at h4 b3 = array_at h3 b3"
    using array_at_append [OF l3, of "n4"] by (simp add: a4)
  have "bstrap_h ch bs_iter [d1, d2, d3, d4] g h = (Inr ([b1, b2, b3, b4], g4), h4)"
    by (simp add: s1 s2 s3 s4)
  moreover have "bstrap ch bs_iter (map (floats_at h) [d1, d2, d3, d4]) g =
                   Inr (map (array_at h4) [b1, b2, b3, b4], g4)"
    by (simp add: r1 r2 r3 r4 k1 k2 k3)
  ultimately show ?thesis by blast
qed

lemma bstrap_h_PD:
  assumes "\<forall>a\<in>set [d1, d2, d3, d4, d5]. a < length h"
  shows "\<exists>bs g' h'. bstrap_h ch bs_iter [d1, d2, d3, d4, d5] g h = (Inr (bs, g'), h') \<and>
           bstrap ch bs_iter (map (floats_at h) [d1, d2, d3, d4, d5]) g =
             Inr (map (array_at h') bs, g')"
proof -
  from assms have v: "d1 < length h" "d2 < length h" "d3 < length h" "d4 < length h"
    "d5 < length h" by simp_all
  from resample_h_step [of h h "[]" d1 ch bs_iter 1000 g] v(1) obtain b1 g1 h1 n1 where
    s1: "resample_h ch bs_iter 1000 d1 g h = (b1, g1, h1)" and
    r1: "resample ch bs_iter 1000 (floats_at h d1) g = (array_at h1 b1, g1)" and
    l1: "b1 < length h1" and a1: "h1 = h @ n1" by auto
  from resample_h_step [OF a1 v(2), of ch bs_iter 1000 g1] obtain b2 g2 h2 n2 where
    s2: "resample_h ch bs_iter 1000 d2 g1 h1 = (b2, g2, h2)" and
    r2: "resample ch bs_iter 1000 (floats_at h d2) g1 = (array_at h2 b2, g2)" and
    l2: "b2 < length h2" and a2: "h2 = h1 @ n2" by auto
  have a2': "h2 = h @ (n1 @ n2)" by (simp add: a1 a2)
  from resample_h_step [OF a2' v(3), of ch bs_iter 1000 g2] obtain b3 g3 h3 n3 where
    s3: "resample_h ch bs_iter 1000 d3 g2 h2 = (b3, g3, h3)" and
    r3: "resample ch bs_iter 1000 (floats_at h d3) g2 = (array_at h3 b3, g3)" and
    l3: "b3 < length h3" and a3: "h3 = h2 @ n3" by auto
  have a3': "h3 = h @ (n1 @ n2 @ n3)" by (simp add: a2' a3)
  from resample_h_step [OF a3' v(4), of ch bs_iter 1000 g3] obtain b4 g4 h4 n4 where
    s4: "resample_h ch bs_iter 1000 d4 g3 h3 = (b4, g4, h4)" and
    r4: "resample ch bs_iter 1000 (floats_at h d4) g3 = (array_at h4 b4, g4)" and
    l4: "b4 < length h4" and a4: "h4 = h3 @ n4" by auto
  have a4': "h4 = h @ (n1 @ n2 @ n3 @ n4)" by (simp add: a3' a4)
  from resample_h_step [OF a4' v(5), of ch bs_iter 1000 g4] obtain b5 g5 h5 n5 where
    s5: "resample_h ch bs_iter 1000 d5 g4 h4 = (b5, g5, h5)" and
    r5: "resample ch bs_iter 1000 (floats_at h d5) g4 = (array_at h5 b5, g5)" and
    l5: "b5 < length h5" and a5: "h5 = h4 @ n5" by auto
  have k1: "array_at h5 b1 = array_at h1 b1"
    using array_at_append [OF l1, of "n2 @ n3 @ n4 @ n5"] by (simp add: a5 a4 a3 a2)
  have k2: "array_at h5 b2 = array_at h2 b2"
    using array_at_append [OF l2, of "n3 @ n4 @ n5"] by (simp add: a5 a4 a3)
  have k3: "array_at h5 b3 = array_at h3 b3"
    using array_at_append [OF l3, of "n4 @ n5"] by (simp add: a5 a4)
  have k4: "array_at h5 b4 = array_at h4 b4"
    using array_at_append [OF l4, of "n5"] by (simp add: a5)
  have "bstrap_h ch bs_iter [d1, d2, d3, d4, d5] g h = (Inr ([b1, b2, b3, b4, b5], g5), h5)"
    by (simp add: s1 s2 s3 s4 s5)
  moreover have "bstrap ch bs_iter (map (floats_at h) [d1, d2, d3, d4, d5]) g =
                   Inr (map (array_at h5) [b1, b2, b3, b4, b5], g5)"
    by (simp add: r1 r2 r3 r4 r5 k1 k2 k3 k4)
  ultimately show ?thesis by blast
qed

lemma bstrap_h_raises:
  "length refs \<noteq> 4 \<Longrightarrow> length refs \<noteq> 5 \<Longrightarrow> bstrap_h ch bs_iter refs g h = (Inl DecadeException, h)"
  by (induction ch bs_iter refs g h rule: bstrap_h.induct) simp_all

lemma bstrap_h_refines:
  assumes "\<forall>a\<in>set refs. a < length h"
  shows "(case bstrap ch bs_iter (map (floats_at h) refs) g of
            Inl err \<Rightarrow> fst (bstrap_h ch bs_iter refs g h) = Inl err
          | Inr (out, g') \<Rightarrow>
              (\<exists>bs. fst (bstrap_h ch bs_iter refs g h) = Inr (bs, g') \<and>
                    map (array_at (snd (bstrap_h ch bs_iter refs g h))) bs = out))"
proof -
  consider "length refs = 4" | "length refs = 5" | "length refs \<noteq> 4" "length refs \<noteq> 5"
    by blast
  then show ?thesis
  proof cases
    case 1
    then obtain d1 d2 d3 d4 where refs: "refs = [d1, d2, d3, d4]" by (rule length_4E)
    from bstrap_h_rate [OF assms [unfolded refs], of ch bs_iter g] show ?thesis
      unfolding refs by auto
  next
    case 2
    then obtain d1 d2 d3 d4 d5 where refs: "refs = [d1, d2, d3, d4, d5]" by (rule length_5E)
    from bstrap_h_PD [OF assms [unfolded refs], of ch bs_iter g] show ?thesis
      unfolding refs by auto
  next
    case 3
    then show ?thesis by (simp add: bstrap_h_raises bstrap_raises)
  qed
qed

section \<open>The arguments after a call\<close>

lemma unchanged_nth: "unchanged h h' \<Longrightarrow> a < length h \<Longrightarrow> h' ! a = h ! a"
  unfolding unchanged_def by (metis nth_take)

lemma unchanged_regions:
  assumes "unchanged h h'" "valid_regions h regions_ref"
  shows "regions_at h' regions_ref = regions_at h regions_ref"
proof -
  note n = unchanged_nth [OF assms(1)]
  from assms(2) have top: "regions_ref < length h"
    and rs: "\<forall>r\<in>set (items h regions_ref). ref_of r < length h"
    and ws: "\<forall>r\<in>set (items h regions_ref). \<forall>w\<in>set (items h (ref_of r)). ref_of w < length h"
    by (auto simp: valid_regions_def list_all_iff)
  have i: "items h' regions_ref = items h regions_ref"
    using n [OF top] by (rule items_cong)
  have "\<And>r. r \<in> set (items h regions_ref) \<Longrightarrow> rows_at h' (ref_of r) = rows_at h (ref_of r)"
  proof -
    fix r assume r: "r \<in> set (items h regions_ref)"
    with rs have "ref_of r < length h" by blast
    then have ir: "items h' (ref_of r) = items h (ref_of r)" by (intro items_cong n)
    have "\<And>w. w \<in> set (items h (ref_of r)) \<Longrightarrow> items h' (ref_of w) = items h (ref_of w)"
      using ws r by (intro items_cong n) blast
    then show "rows_at h' (ref_of r) = rows_at h (ref_of r)"
      unfolding rows_at_def ir by (intro map_cong [OF refl]) simp
  qed
  then show ?thesis unfolding regions_at_def i by (intro map_cong [OF refl])
qed

lemma unchanged_samples:
  assumes "unchanged h h'" "\<forall>a\<in>set refs. a < length h"
  shows "map (floats_at h') refs = map (floats_at h) refs"
  using assms(2) by (intro map_cong [OF refl] floats_at_cong unchanged_nth [OF assms(1)]) blast

lemma unchanged_loc_average_h: "unchanged h (snd (loc_average_h fl regions_ref m s e h))"
  using frame_loc_average_h [of h fl regions_ref m s e] by (simp add: frame_def unchanged_def)

lemma unchanged_bstrap_h: "unchanged h (snd (bstrap_h ch bs_iter refs g h))"
  using frame_bstrap_h [of h ch bs_iter refs g] by (simp add: frame_def unchanged_def)

text \<open>
  Claim C9. Neither function writes an object that exists when it is called: on the store,
  every object of the store before the call is the same object after it, whether the call
  returns or raises. So the table of regions read through \<^verbatim>\<open>regions\<close> and the samples passed
  to \<^verbatim>\<open>bstrap\<close> are the same, element for element, after the call.
\<close>

theorem arguments_not_mutated:
  "unchanged h (snd (loc_average_h fl regions_ref m s e h)) \<and>
   unchanged h (snd (bstrap_h ch bs_iter refs g h)) \<and>
   (valid_regions h regions_ref \<longrightarrow>
      regions_at (snd (loc_average_h fl regions_ref m s e h)) regions_ref =
      regions_at h regions_ref) \<and>
   ((\<forall>a\<in>set refs. a < length h) \<longrightarrow>
      map (floats_at (snd (bstrap_h ch bs_iter refs g h))) refs = map (floats_at h) refs)"
proof (intro conjI impI)
  show "unchanged h (snd (loc_average_h fl regions_ref m s e h))"
    by (rule unchanged_loc_average_h)
  show "unchanged h (snd (bstrap_h ch bs_iter refs g h))"
    by (rule unchanged_bstrap_h)
  show "regions_at (snd (loc_average_h fl regions_ref m s e h)) regions_ref =
        regions_at h regions_ref" if "valid_regions h regions_ref"
    using unchanged_loc_average_h that by (rule unchanged_regions)
  show "map (floats_at (snd (bstrap_h ch bs_iter refs g h))) refs = map (floats_at h) refs"
    if "\<forall>a\<in>set refs. a < length h"
    using unchanged_bstrap_h that by (rule unchanged_samples)
qed


theorem arguments_not_mutated_witness:
  "fst (loc_average_h float_lit 4 0 1 5 ex_store) = Inr [16, 17, 18, 19] \<and>
   map (floats_at (snd (loc_average_h float_lit 4 0 1 5 ex_store))) [16, 17, 18, 19] =
     [[2, 2], [10, 20], [7, 5], [40]] \<and>
   take 9 (snd (loc_average_h float_lit 4 0 1 5 ex_store)) = ex_store \<and>
   regions_at (snd (loc_average_h float_lit 4 0 1 5 ex_store)) 4 =
     [[[''A'', ''1'', ''10'', '' '', ''30''], [''B'', ''2'', ''20'', ''5'', ''''],
       [''A'', ''3'', '''', ''7'', ''50'']]] \<and>
   fst (bstrap_h cyclic_choice 3 [5, 6, 7, 8] (0::nat) ex_store) = Inr ([12, 13, 17, 21], 18) \<and>
   take 9 (snd (bstrap_h cyclic_choice 3 [5, 6, 7, 8] (0::nat) ex_store)) = ex_store \<and>
   map (floats_at (snd (bstrap_h cyclic_choice 3 [5, 6, 7, 8] (0::nat) ex_store))) [5, 6, 7, 8] =
     [[1, 2, 3], [], [10], [4, 6]]"
proof -
  note t = arguments_not_mutated [where h = ex_store and fl = float_lit and regions_ref = 4
      and m = 0 and s = 1 and e = 5 and ch = cyclic_choice and bs_iter = 3
      and refs = "[5, 6, 7, 8]" and g = "0::nat"]
  have len: "length ex_store = 9" by (simp add: ex_store_def)
  have v: "valid_regions ex_store 4" by code_simp
  have w: "\<forall>a\<in>set [5, 6, 7, 8]. a < length ex_store" by (simp add: len)
  have a: "fst (loc_average_h float_lit 4 0 1 5 ex_store) = Inr [16, 17, 18, 19]" by code_simp
  have b: "map (floats_at (snd (loc_average_h float_lit 4 0 1 5 ex_store))) [16, 17, 18, 19] =
     [[2, 2], [10, 20], [7, 5], [40]]" by code_simp
  from t [THEN conjunct1]
  have c: "take 9 (snd (loc_average_h float_lit 4 0 1 5 ex_store)) = ex_store"
    by (simp add: unchanged_def len)
  have "regions_at (snd (loc_average_h float_lit 4 0 1 5 ex_store)) 4 = regions_at ex_store 4"
    by (rule mp [OF t [THEN conjunct2, THEN conjunct2, THEN conjunct1] v])
  also have "\<dots> = [[[''A'', ''1'', ''10'', '' '', ''30''], [''B'', ''2'', ''20'', ''5'', ''''],
       [''A'', ''3'', '''', ''7'', ''50'']]]" by code_simp
  finally have d: "regions_at (snd (loc_average_h float_lit 4 0 1 5 ex_store)) 4 =
     [[[''A'', ''1'', ''10'', '' '', ''30''], [''B'', ''2'', ''20'', ''5'', ''''],
       [''A'', ''3'', '''', ''7'', ''50'']]]" .
  have e: "fst (bstrap_h cyclic_choice 3 [5, 6, 7, 8] (0::nat) ex_store) =
             Inr ([12, 13, 17, 21], 18)" by code_simp
  from t [THEN conjunct2, THEN conjunct1]
  have f: "take 9 (snd (bstrap_h cyclic_choice 3 [5, 6, 7, 8] (0::nat) ex_store)) = ex_store"
    by (simp add: unchanged_def len)
  have "map (floats_at (snd (bstrap_h cyclic_choice 3 [5, 6, 7, 8] (0::nat) ex_store))) [5, 6, 7, 8] =
          map (floats_at ex_store) [5, 6, 7, 8]"
    by (rule mp [OF t [THEN conjunct2, THEN conjunct2, THEN conjunct2] w])
  also have "\<dots> = [[1, 2, 3], [], [10], [4, 6]]" by code_simp
  finally have g: "map (floats_at (snd (bstrap_h cyclic_choice 3 [5, 6, 7, 8] (0::nat) ex_store)))
      [5, 6, 7, 8] = [[1, 2, 3], [], [10], [4, 6]]" .
  from a b c d e f g show ?thesis by blast
qed

end
